theory Spec2Isabelle
  imports Complex_Main "HOL-Library.Word"
begin

unbundle bit_operations_syntax

section \<open>The Morpheus HMD driver (MorpheusHMD.cpp)\<close>

text \<open>
  A shallow embedding of \<^verbatim>\<open>src/psmoveservice/MorpheusHMD/MorpheusHMD.cpp\<close>.
  The driver object is a record, its methods are functions from the object (and what the
  HID library hands back) to the updated object and the method's result.

  Conventions.
  \<^item> \<^verbatim>\<open>unsigned char\<close> is \<open>8 word\<close>, \<^verbatim>\<open>unsigned short\<close> is \<open>16 word\<close>,
    \<^verbatim>\<open>int\<close> is \<open>32 word\<close> where the code computes with it (\<^verbatim>\<open>getState\<close> and the
    sequence counter), in two's complement as the target machines compute.
  \<^item> A \<^verbatim>\<open>float\<close> member of the configuration is a \<open>real\<close>: a finite number, as the
    constructor sets it or the document gives it. A \<^verbatim>\<open>float\<close> that the decoder computes
    is a \<open>float32\<close>: a finite number or an infinity, the exact product rounded to single
    precision (to nearest, ties to even). The two zeros are not told apart.
  \<^item> A fixed array of two bytes \<^verbatim>\<open>b[2]\<close> is the pair \<open>(b[0], b[1])\<close>; a vector with the
    members \<^verbatim>\<open>i, j, k\<close> is the triple \<open>(i, j, k)\<close>.
  \<^item> A \<^verbatim>\<open>hid_device *\<close> is a \<open>hid_device option\<close>, \<open>None\<close> being \<^verbatim>\<open>nullptr\<close>.
  \<^item> The sequence counter \<^verbatim>\<open>NextPollSequenceNumber\<close> and the member
    \<^verbatim>\<open>PollSequenceNumber\<close> of a state are declared in headers that are not among the
    sources; they are \<^verbatim>\<open>int\<close>, and \<^verbatim>\<open>++\<close> at \<^verbatim>\<open>INT_MAX\<close> wraps around to
    \<^verbatim>\<open>INT_MIN\<close>.
\<close>

subsection \<open>Single-precision numbers\<close>

text \<open>
  The values of a \<^verbatim>\<open>float\<close> that a product of finite numbers can have. A finite value is
  \<open>m * 2 ^ e\<close> with \<open>\<bar>m\<bar> < 2 ^ 24\<close> and \<open>- 149 \<le> e \<le> 104\<close>.
\<close>

datatype float32 = Finite real | PlusInfinity | MinusInfinity

definition pow2 :: "int \<Rightarrow> real" where
  "pow2 k = (if 0 \<le> k then 2 ^ nat k else 1 / 2 ^ nat (- k))"

definition max_float32 :: real where
  "max_float32 = (2 ^ 24 - 1) * 2 ^ 104"

text \<open>
  The exponent of the binade of a magnitude \<open>a\<close>: the greatest \<open>k\<close> from \<open>- 125\<close> up to
  \<open>n - 126\<close> with \<open>2 ^ k \<le> a\<close>, and \<open>- 126\<close> (the binade of the smallest normal numbers,
  whose spacing the subnormal numbers share) when there is none. For a \<^verbatim>\<open>float\<close> \<open>n\<close> is
  253: the exponents run up to 127.
\<close>

primrec binade :: "nat \<Rightarrow> real \<Rightarrow> int" where
  "binade 0 a = - 126"
| "binade (Suc n) a = (if pow2 (int n - 125) \<le> a then int n - 125 else binade n a)"

text \<open>Rounding to the nearest integer, a tie going to the even one.\<close>

definition round_half_even :: "real \<Rightarrow> int" where
  "round_half_even q =
     (let f = \<lfloor>q\<rfloor>
      in if q - real_of_int f < 1 / 2 then f
         else if 1 / 2 < q - real_of_int f then f + 1
         else if even f then f else f + 1)"

text \<open>
  Rounding a real number to single precision: to the nearest multiple of the spacing of
  its binade (24 significant bits), and to an infinity when the rounded number is beyond
  the finite values.
\<close>

definition float32_round :: "real \<Rightarrow> float32" where
  "float32_round x =
     (let e = binade 253 \<bar>x\<bar> - 23;
          y = real_of_int (round_half_even (x / pow2 e)) * pow2 e
      in if pow2 128 \<le> y then PlusInfinity
         else if y \<le> - pow2 128 then MinusInfinity
         else Finite y)"

text \<open>The product of two finite \<^verbatim>\<open>float\<close> values, as \<^verbatim>\<open>*\<close> computes it.\<close>

definition float32_mul :: "real \<Rightarrow> real \<Rightarrow> float32" where
  "float32_mul a b = float32_round (a * b)"

subsection \<open>Data\<close>

type_synonym u8 = "8 word"
type_synonym hid_device = nat
type_synonym CommonRawDeviceVector = "int \<times> int \<times> int"
type_synonym CommonDeviceVector = "real \<times> real \<times> real"

text \<open>
  \<^verbatim>\<open>eCommonTrackingColorID\<close> is declared in DeviceInterface.h, not among the sources. The six
  names are those of the colour table in AppStage_TrackerSettings.cpp; a value that is none
  of them (an enum object holds any value of its underlying type) is \<open>UnnamedColor\<close>.
\<close>

datatype eCommonTrackingColorID =
  Magenta | Cyan | Yellow | Red | Green | Blue | UnnamedColor int

record MorpheusHIDDetails =
  device_identifier :: string
  sensor_device_path :: string
  sensor_device_handle :: "hid_device option"
  command_device_path :: string
  command_device_handle :: "hid_device option"

text \<open>\<^verbatim>\<open>MorpheusHIDDetails::Reset\<close>\<close>

definition HIDDetails_Reset :: MorpheusHIDDetails where
  "HIDDetails_Reset =
     \<lparr> device_identifier = '''', sensor_device_path = '''', sensor_device_handle = None,
       command_device_path = '''', command_device_handle = None \<rparr>"

record MorpheusRawSensorFrame =
  accel_x :: "u8 \<times> u8"
  accel_y :: "u8 \<times> u8"
  accel_z :: "u8 \<times> u8"
  gyro_x :: "u8 \<times> u8"
  gyro_y :: "u8 \<times> u8"
  gyro_z :: "u8 \<times> u8"

record MorpheusDataInput =
  buttons :: u8
  unk0 :: u8
  volume :: u8
  unk1 :: "u8 list"
  headsetFlags :: u8
  unkFlags :: u8
  unk2 :: "u8 list"
  frame :: "16 word"
  imu_frame_0 :: MorpheusRawSensorFrame
  unk3 :: "u8 list"
  imu_frame_1 :: MorpheusRawSensorFrame

definition zero_frame :: MorpheusRawSensorFrame where
  "zero_frame =
     \<lparr> accel_x = (0, 0), accel_y = (0, 0), accel_z = (0, 0),
       gyro_x = (0, 0), gyro_y = (0, 0), gyro_z = (0, 0) \<rparr>"

text \<open>\<^verbatim>\<open>MorpheusDataInput::Reset\<close>: the \<^verbatim>\<open>memset\<close> to 0 of the whole packet.\<close>

definition DataInput_Reset :: MorpheusDataInput where
  "DataInput_Reset =
     \<lparr> buttons = 0, unk0 = 0, volume = 0, unk1 = replicate 5 0, headsetFlags = 0,
       unkFlags = 0, unk2 = replicate 4 0, frame = 0, imu_frame_0 = zero_frame,
       unk3 = replicate 4 0, imu_frame_1 = zero_frame \<rparr>"

record MorpheusHMDConfig =
  is_valid :: bool
  version :: int
  accelerometer_gain :: real
  accelerometer_variance :: real
  gyro_gain :: real
  gyro_variance :: real
  gyro_drift :: real
  identity_gravity_direction :: CommonDeviceVector
  min_orientation_quality_screen_area :: real
  max_orientation_quality_screen_area :: real
  min_position_quality_screen_area :: real
  max_position_quality_screen_area :: real
  max_velocity :: real
  prediction_time :: real
  max_poll_failure_count :: int
  tracking_color_id :: eCommonTrackingColorID

record MorpheusHMDSensorFrame =
  RawAccel :: CommonRawDeviceVector
  RawGyro :: CommonRawDeviceVector
  CalibratedAccel :: "float32 \<times> float32 \<times> float32"
  CalibratedGyro :: "float32 \<times> float32 \<times> float32"

record MorpheusHMDState =
  PollSequenceNumber :: "32 word"
  SensorFrames :: "MorpheusHMDSensorFrame \<times> MorpheusHMDSensorFrame"

record MorpheusHMD =
  cfg :: MorpheusHMDConfig
  HIDDetails :: MorpheusHIDDetails
  NextPollSequenceNumber :: "32 word"
  InData :: MorpheusDataInput
  HMDStates :: "MorpheusHMDState list"

definition MORPHEUS_SENSOR_INTERFACE :: int where
  "MORPHEUS_SENSOR_INTERFACE = 4"

definition MORPHEUS_COMMAND_INTERFACE :: int where
  "MORPHEUS_COMMAND_INTERFACE = 5"

definition MORPHEUS_HMD_STATE_BUFFER_MAX :: nat where
  "MORPHEUS_HMD_STATE_BUFFER_MAX = 4"

definition CONFIG_VERSION :: int where
  "CONFIG_VERSION = 1"

subsection \<open>The frame decoder\<close>

text \<open>
  \<^verbatim>\<open>static_cast<short>((b[1] << 8) | b[0])\<close>: both bytes are promoted to \<^verbatim>\<open>int\<close>, the high
  one is shifted, and the result is cut to 16 bits.
\<close>

definition piece_together :: "u8 \<times> u8 \<Rightarrow> 16 word" where
  "piece_together b =
     ucast (push_bit 8 (ucast (snd b) :: 32 word) OR (ucast (fst b) :: 32 word))"

text \<open>
  \<^verbatim>\<open>MorpheusHMDSensorFrame::parse_data_input\<close>. \<^verbatim>\<open>static_cast<float>\<close> of a
  \<^verbatim>\<open>short\<close> is exact: every 16-bit number is a \<^verbatim>\<open>float\<close>.
\<close>

definition SensorFrame_parse_data_input ::
  "MorpheusHMDConfig \<Rightarrow> MorpheusRawSensorFrame \<Rightarrow> MorpheusHMDSensorFrame" where
  "SensorFrame_parse_data_input config data_input =
     (let raw_accelX = piece_together (accel_x data_input);
          raw_accelY = piece_together (accel_y data_input);
          raw_accelZ = piece_together (accel_z data_input);
          raw_gyroX = piece_together (gyro_x data_input);
          raw_gyroY = piece_together (gyro_y data_input);
          raw_gyroZ = piece_together (gyro_z data_input)
      in \<lparr> RawAccel = (sint raw_accelX, sint raw_accelY, sint raw_accelZ),
           RawGyro = (sint raw_gyroX, sint raw_gyroY, sint raw_gyroZ),
           CalibratedAccel =
             (float32_mul (real_of_int (sint raw_accelX)) (accelerometer_gain config),
              float32_mul (real_of_int (sint raw_accelY)) (accelerometer_gain config),
              float32_mul (real_of_int (sint raw_accelZ)) (accelerometer_gain config)),
           CalibratedGyro =
             (float32_mul (real_of_int (sint raw_gyroX)) (gyro_gain config),
              float32_mul (real_of_int (sint raw_gyroY)) (gyro_gain config),
              float32_mul (real_of_int (sint raw_gyroZ)) (gyro_gain config)) \<rparr>)"

text \<open>
  \<^verbatim>\<open>MorpheusHMDState::parse_data_input\<close>: the two sub-frames of one packet; the result
  is the new content of the array \<^verbatim>\<open>SensorFrames\<close>.
\<close>

definition State_parse_data_input ::
  "MorpheusHMDConfig \<Rightarrow> MorpheusDataInput \<Rightarrow> MorpheusHMDSensorFrame \<times> MorpheusHMDSensorFrame" where
  "State_parse_data_input config data_input =
     (SensorFrame_parse_data_input config (imu_frame_0 data_input),
      SensorFrame_parse_data_input config (imu_frame_1 data_input))"

text \<open>
  The reading of the specification: the value of the byte pair, low byte first, as a
  signed 16-bit number.
\<close>

definition signed16_le :: "u8 \<times> u8 \<Rightarrow> int" where
  "signed16_le b =
     (let v = 256 * uint (snd b) + uint (fst b)
      in if v < 32768 then v else v - 65536)"

subsection \<open>Configuration\<close>

text \<open>
  A \<^verbatim>\<open>boost::property_tree::ptree\<close> maps a path to the text stored there, and
  \<^verbatim>\<open>pt.get<T>(path, fallback)\<close> gives the fallback when the path is absent or its text
  does not translate to \<^verbatim>\<open>T\<close>. A node is modelled by what its text translates to
  under each type the driver asks for.
\<close>

record pt_data =
  as_int :: "int option"
  as_long :: "int option"
  as_float :: "real option"
  as_bool :: "bool option"

type_synonym ptree = "string \<Rightarrow> pt_data option"

definition pt_get :: "(pt_data \<Rightarrow> 'a option) \<Rightarrow> ptree \<Rightarrow> string \<Rightarrow> 'a \<Rightarrow> 'a" where
  "pt_get translate pt path fallback =
     (case pt path of
        None \<Rightarrow> fallback
      | Some node \<Rightarrow> (case translate node of None \<Rightarrow> fallback | Some v \<Rightarrow> v))"

datatype server_log =
  SERVER_LOG_INFO string | SERVER_LOG_WARNING string | SERVER_LOG_ERROR string

text \<open>
  \<^verbatim>\<open>MorpheusHMDConfig::ptree2config\<close>. The configuration object is updated in place, so
  the function takes the object as it is before the load. \<open>readTrackingColor\<close> stands for
  \<^verbatim>\<open>static_cast<eCommonTrackingColorID>(readTrackingColor(pt))\<close>, a helper of the
  configuration base class that is not among the sources. The result carries the log
  lines written.
\<close>

definition ptree2config ::
  "(ptree \<Rightarrow> eCommonTrackingColorID) \<Rightarrow> MorpheusHMDConfig \<Rightarrow> ptree \<Rightarrow>
     server_log list \<times> MorpheusHMDConfig" where
  "ptree2config readTrackingColor c pt =
     (let c = c\<lparr> version := pt_get as_int pt ''version'' 0 \<rparr>
      in if version c = CONFIG_VERSION then
           ([],
            c\<lparr> is_valid := pt_get as_bool pt ''is_valid'' False,
               prediction_time := pt_get as_float pt ''prediction_time'' 0,
               max_poll_failure_count := pt_get as_long pt ''max_poll_failure_count'' 100,
               accelerometer_gain :=
                 pt_get as_float pt ''Calibration.Accel.Gain'' (accelerometer_gain c),
               accelerometer_variance :=
                 pt_get as_float pt ''Calibration.Accel.Variance'' (accelerometer_variance c),
               gyro_gain := pt_get as_float pt ''Calibration.Gyro.Gain'' (gyro_gain c),
               gyro_variance :=
                 pt_get as_float pt ''Calibration.Gyro.Variance'' (gyro_variance c),
               gyro_drift := pt_get as_float pt ''Calibration.Gyro.Drift'' (gyro_drift c),
               min_orientation_quality_screen_area :=
                 pt_get as_float pt ''OrientationFilter.MinQualityScreenArea''
                   (min_orientation_quality_screen_area c),
               max_orientation_quality_screen_area :=
                 pt_get as_float pt ''OrientationFilter.MaxQualityScreenArea''
                   (max_orientation_quality_screen_area c),
               min_position_quality_screen_area :=
                 pt_get as_float pt ''PositionFilter.MinQualityScreenArea''
                   (min_position_quality_screen_area c),
               max_position_quality_screen_area :=
                 pt_get as_float pt ''PositionFilter.MaxQualityScreenArea''
                   (max_position_quality_screen_area c),
               max_velocity := pt_get as_float pt ''PositionFilter.MaxVelocity'' (max_velocity c),
               identity_gravity_direction :=
                 (case identity_gravity_direction c of
                    (gi, gj, gk) \<Rightarrow>
                      (pt_get as_float pt ''Calibration.Identity.Gravity.X'' gi,
                       pt_get as_float pt ''Calibration.Identity.Gravity.Y'' gj,
                       pt_get as_float pt ''Calibration.Identity.Gravity.Z'' gk)),
               tracking_color_id := readTrackingColor pt \<rparr>)
         else ([SERVER_LOG_WARNING ''MorpheusHMDConfig''], c))"

subsection \<open>The driver object\<close>

text \<open>
  The constructor. The defaults of the configuration are set by the constructor of
  \<^verbatim>\<open>MorpheusHMDConfig\<close> in MorpheusHMD.h, which is not among the sources: they are the
  parameter \<open>cfg0\<close>.
\<close>

definition MorpheusHMD_new :: "MorpheusHMDConfig \<Rightarrow> MorpheusHMD" where
  "MorpheusHMD_new cfg0 =
     \<lparr> cfg = cfg0, HIDDetails = HIDDetails_Reset, NextPollSequenceNumber = 0,
       InData = DataInput_Reset, HMDStates = [] \<rparr>"

definition getIsOpen :: "MorpheusHMD \<Rightarrow> bool" where
  "getIsOpen s =
     (sensor_device_handle (HIDDetails s) \<noteq> None \<and>
      command_device_handle (HIDDetails s) \<noteq> None)"

definition getIsReadyToPoll :: "MorpheusHMD \<Rightarrow> bool" where
  "getIsReadyToPoll s = getIsOpen s"

text \<open>
  \<^verbatim>\<open>MorpheusHMD::close\<close>. The first component lists the handles given to
  \<^verbatim>\<open>hid_close\<close>, in the order of the calls.
\<close>

definition MorpheusHMD_close :: "MorpheusHMD \<Rightarrow> hid_device list \<times> MorpheusHMD" where
  "MorpheusHMD_close s =
     (if sensor_device_handle (HIDDetails s) \<noteq> None \<or>
         command_device_handle (HIDDetails s) \<noteq> None
      then
        ((case sensor_device_handle (HIDDetails s) of None \<Rightarrow> [] | Some h \<Rightarrow> [h]) @
         (case command_device_handle (HIDDetails s) of None \<Rightarrow> [] | Some h \<Rightarrow> [h]),
         s\<lparr> HIDDetails := HIDDetails_Reset, InData := DataInput_Reset \<rparr>)
      else ([], s))"

record HMDDeviceEnumerator =
  get_path :: string
  get_interface_path :: "int \<Rightarrow> string"

text \<open>
  \<^verbatim>\<open>MorpheusHMD::open(const DeviceEnumerator *)\<close>. \<open>hid_open_path\<close> is the answer of the
  HID library for a path: a handle or \<^verbatim>\<open>nullptr\<close>. The result is the returned flag, the
  handles closed on the way (when the open fails) and the object. Saving the
  configuration file does not change the object and is left out, as are the log lines.
\<close>

definition MorpheusHMD_open ::
  "(string \<Rightarrow> hid_device option) \<Rightarrow> HMDDeviceEnumerator \<Rightarrow> MorpheusHMD \<Rightarrow>
     bool \<times> hid_device list \<times> MorpheusHMD" where
  "MorpheusHMD_open hid_open_path pEnum s =
     (let cur_dev_path = get_path pEnum
      in if getIsOpen s then (True, [], s)
         else
           (let d = (HIDDetails s)\<lparr> device_identifier := cur_dev_path \<rparr>;
                d = d\<lparr> sensor_device_path :=
                         get_interface_path pEnum MORPHEUS_SENSOR_INTERFACE \<rparr>;
                d = d\<lparr> sensor_device_handle := hid_open_path (sensor_device_path d) \<rparr>;
                d = d\<lparr> command_device_path :=
                         get_interface_path pEnum MORPHEUS_COMMAND_INTERFACE \<rparr>;
                d = d\<lparr> command_device_handle := hid_open_path (command_device_path d) \<rparr>;
                s = s\<lparr> HIDDetails := d \<rparr>
            in if getIsOpen s then (True, [], s\<lparr> NextPollSequenceNumber := 0 \<rparr>)
               else (case MorpheusHMD_close s of (released, s') \<Rightarrow> (False, released, s'))))"

subsection \<open>The poll loop\<close>

datatype ePollResult =
  PollResultSuccessNoData | PollResultSuccessNewData | PollResultFailure

text \<open>
  One call of \<^verbatim>\<open>hid_read\<close> on the non-blocking sensor channel is its return value
  together with the content of the packet buffer after the call. The channel is the list
  of the calls to come; when it is exhausted a call returns 0 and leaves the buffer.
\<close>

type_synonym hid_read_result = "int \<times> MorpheusDataInput"

definition hid_read ::
  "hid_read_result list \<Rightarrow> MorpheusDataInput \<Rightarrow> hid_read_result \<times> hid_read_result list" where
  "hid_read chan buf = (case chan of [] \<Rightarrow> ((0, buf), []) | r # rest \<Rightarrow> (r, rest))"

definition k_max_iterations :: nat where
  "k_max_iterations = 32"

text \<open>
  The part of the loop body after a packet was read (lines 441 to 457): number the new
  state, decode the packet, make room, push. The result is the new state and the object.
\<close>

definition poll_new_state :: "MorpheusHMD \<Rightarrow> MorpheusHMDState \<times> MorpheusHMD" where
  "poll_new_state s =
     (let newState =
            \<lparr> PollSequenceNumber = NextPollSequenceNumber s,
              SensorFrames = State_parse_data_input (cfg s) (InData s) \<rparr>;
          s = s\<lparr> NextPollSequenceNumber := NextPollSequenceNumber s + 1 \<rparr>;
          s = (if length (HMDStates s) \<ge> MORPHEUS_HMD_STATE_BUFFER_MAX
               then s\<lparr> HMDStates :=
                        drop (length (HMDStates s) - MORPHEUS_HMD_STATE_BUFFER_MAX)
                          (HMDStates s) \<rparr>
               else s)
      in (newState, s\<lparr> HMDStates := HMDStates s @ [newState] \<rparr>))"

text \<open>
  The \<^verbatim>\<open>for\<close> loop of \<^verbatim>\<open>MorpheusHMD::poll\<close>. Beside the result and the object it gives
  back the calls of the channel not made, and \<open>pushed\<close>, the states pushed so far in
  this call, oldest first (the history itself forgets them).
\<close>

function poll_loop ::
  "nat \<Rightarrow> ePollResult \<Rightarrow> MorpheusHMD \<Rightarrow> hid_read_result list \<Rightarrow> MorpheusHMDState list \<Rightarrow>
     ePollResult \<times> MorpheusHMD \<times> hid_read_result list \<times> MorpheusHMDState list" where
  "poll_loop iteration result s chan pushed =
     (if iteration < k_max_iterations then
        (case hid_read chan (InData s) of
           ((res, buf), chan') \<Rightarrow>
             (let s = s\<lparr> InData := buf \<rparr>
              in if res = 0 then
                   ((if iteration = 0 then PollResultSuccessNoData
                     else PollResultSuccessNewData), s, chan', pushed)
                 else if res < 0 then (PollResultFailure, s, chan', pushed)
                 else
                   (case poll_new_state s of
                      (newState, s) \<Rightarrow>
                        poll_loop (iteration + 1) PollResultSuccessNewData s chan'
                          (pushed @ [newState]))))
      else (result, s, chan, pushed))"
  by pat_completeness auto
termination
  by (relation "measure (\<lambda>(iteration, _). k_max_iterations - iteration)") auto

declare poll_loop.simps [simp del]

text \<open>\<^verbatim>\<open>MorpheusHMD::poll\<close>\<close>

definition MorpheusHMD_poll ::
  "MorpheusHMD \<Rightarrow> hid_read_result list \<Rightarrow>
     ePollResult \<times> MorpheusHMD \<times> hid_read_result list \<times> MorpheusHMDState list" where
  "MorpheusHMD_poll s chan =
     (if getIsOpen s then poll_loop 0 PollResultFailure s chan []
      else (PollResultFailure, s, chan, []))"

subsection \<open>Getters\<close>

text \<open>\<^verbatim>\<open>MorpheusHMD::getTrackingColorID\<close>: the out-parameter after the call, and the flag.\<close>

definition getTrackingColorID ::
  "MorpheusHMD \<Rightarrow> eCommonTrackingColorID \<Rightarrow> eCommonTrackingColorID \<times> bool" where
  "getTrackingColorID s out_tracking_color_id = (Blue, True)"

text \<open>
  \<^verbatim>\<open>std::vector::at\<close> takes a \<^verbatim>\<open>size_t\<close> (64 bits) and throws
  \<^verbatim>\<open>std::out_of_range\<close> when the index is not below the size.
\<close>

datatype exception = out_of_range

definition vector_at :: "'a list \<Rightarrow> 64 word \<Rightarrow> exception + 'a" where
  "vector_at xs n = (if unat n < length xs then Inr (xs ! unat n) else Inl out_of_range)"

text \<open>
  \<^verbatim>\<open>MorpheusHMD::getState\<close>. \<^verbatim>\<open>lookBack\<close> and \<^verbatim>\<open>queueSize\<close> are \<^verbatim>\<open>int\<close>: the
  comparison is signed, the index is computed in 32 bits (in two's complement, as the
  target machines do) and sign-extended to \<^verbatim>\<open>size_t\<close> for \<^verbatim>\<open>at\<close>. The result is
  \<open>Inr None\<close> for \<^verbatim>\<open>nullptr\<close>, \<open>Inr (Some e)\<close> for a pointer to the entry \<open>e\<close>, and
  \<open>Inl out_of_range\<close> when \<^verbatim>\<open>at\<close> throws.
\<close>

definition getState :: "MorpheusHMD \<Rightarrow> 32 word \<Rightarrow> exception + MorpheusHMDState option" where
  "getState s lookBack =
     (let queueSize = (word_of_nat (length (HMDStates s)) :: 32 word)
      in if lookBack <s queueSize then
           (case vector_at (HMDStates s) (scast (queueSize - lookBack - 1)) of
              Inl e \<Rightarrow> Inl e
            | Inr st \<Rightarrow> Inr (Some st))
         else Inr None)"

definition getMaxPollFailureCount :: "MorpheusHMD \<Rightarrow> int" where
  "getMaxPollFailureCount s = max_poll_failure_count (cfg s)"

subsection \<open>Sequences of calls\<close>

datatype hmd_call =
  CallOpen "string \<Rightarrow> hid_device option" HMDDeviceEnumerator
| CallPoll "hid_read_result list"
| CallClose

text \<open>One call by the owner of the object: the object afterwards and the states pushed.\<close>

fun call :: "MorpheusHMD \<Rightarrow> hmd_call \<Rightarrow> MorpheusHMD \<times> MorpheusHMDState list" where
  "call s (CallOpen hid_open_path pEnum) =
     (case MorpheusHMD_open hid_open_path pEnum s of (success, released, s') \<Rightarrow> (s', []))"
| "call s (CallPoll chan) =
     (case MorpheusHMD_poll s chan of (result, s', chan', pushed) \<Rightarrow> (s', pushed))"
| "call s CallClose = (case MorpheusHMD_close s of (released, s') \<Rightarrow> (s', []))"

fun calls :: "MorpheusHMD \<Rightarrow> hmd_call list \<Rightarrow> MorpheusHMD \<times> MorpheusHMDState list" where
  "calls s [] = (s, [])"
| "calls s (c # cs) =
     (case call s c of
        (s', pushed) \<Rightarrow> (case calls s' cs of (s'', pushed') \<Rightarrow> (s'', pushed @ pushed')))"

subsection \<open>The specification's view of a poll\<close>

text \<open>
  What the specification says of one packet and of a run of packets, for comparison with
  the loop: the entry decoded from a packet under a given sequence number, the entries
  decoded from successive packets under successive numbers, and the history after
  entries were appended, which are the last \<open>n\<close> of all entries.
\<close>

definition packet_state ::
  "MorpheusHMDConfig \<Rightarrow> 32 word \<Rightarrow> MorpheusDataInput \<Rightarrow> MorpheusHMDState" where
  "packet_state config n buf =
     \<lparr> PollSequenceNumber = n, SensorFrames = State_parse_data_input config buf \<rparr>"

primrec decoded_entries ::
  "MorpheusHMDConfig \<Rightarrow> 32 word \<Rightarrow> MorpheusDataInput list \<Rightarrow> MorpheusHMDState list" where
  "decoded_entries config n [] = []"
| "decoded_entries config n (buf # bufs) =
     packet_state config n buf # decoded_entries config (n + 1) bufs"

definition keep_last :: "nat \<Rightarrow> 'a list \<Rightarrow> 'a list" where
  "keep_last n xs = drop (length xs - n) xs"

definition history_after :: "nat \<Rightarrow> 'a list \<Rightarrow> 'a list \<Rightarrow> 'a list" where
  "history_after n h es = (if es = [] then h else keep_last n (h @ es))"

text \<open>The object after one packet was read into the buffer and processed.\<close>

definition receive :: "MorpheusHMD \<Rightarrow> MorpheusDataInput \<Rightarrow> MorpheusHMD" where
  "receive s buf = snd (poll_new_state (s\<lparr> InData := buf \<rparr>))"

text \<open>
  The object after the packets \<open>bufs\<close> were received one after the other: the buffer holds
  the last packet, the counter has advanced by their number, and the history holds the
  last entries of the old history followed by the new ones, as many as the loop keeps.
\<close>

definition object_after :: "MorpheusHMD \<Rightarrow> MorpheusDataInput list \<Rightarrow> MorpheusHMD" where
  "object_after s bufs =
     s\<lparr> NextPollSequenceNumber := NextPollSequenceNumber s + word_of_nat (length bufs),
        InData := (if bufs = [] then InData s else last bufs),
        HMDStates :=
          history_after (MORPHEUS_HMD_STATE_BUFFER_MAX + 1) (HMDStates s)
            (decoded_entries (cfg s) (NextPollSequenceNumber s) bufs) \<rparr>"

text \<open>
  The entries carry the numbers \<open>n\<close>, \<open>n + 1\<close>, \<open>n + 2\<close> and so on, as the counter
  counts.
\<close>

primrec numbered_from :: "32 word \<Rightarrow> MorpheusHMDState list \<Rightarrow> bool" where
  "numbered_from n [] = True"
| "numbered_from n (e # es) = (PollSequenceNumber e = n \<and> numbered_from (n + 1) es)"

subsection \<open>Concrete inputs\<close>

text \<open>A configuration, a sensor frame and a packet used to run the model.\<close>

definition example_config :: MorpheusHMDConfig where
  "example_config =
     \<lparr> is_valid = False, version = 1, accelerometer_gain = 1 / 8192,
       accelerometer_variance = 0, gyro_gain = 1 / 1024, gyro_variance = 0, gyro_drift = 0,
       identity_gravity_direction = (0, 1, 0),
       min_orientation_quality_screen_area = 0, max_orientation_quality_screen_area = 150,
       min_position_quality_screen_area = 75, max_position_quality_screen_area = 600,
       max_velocity = 1, prediction_time = 0, max_poll_failure_count = 100,
       tracking_color_id = Green \<rparr>"

definition example_frame :: MorpheusRawSensorFrame where
  "example_frame =
     \<lparr> accel_x = (0x34, 0x12), accel_y = (0xFF, 0xFF), accel_z = (0x00, 0x80),
       gyro_x = (0, 0), gyro_y = (1, 0), gyro_z = (0xFF, 0x7F) \<rparr>"

definition example_packet :: MorpheusDataInput where
  "example_packet = DataInput_Reset\<lparr> imu_frame_0 := example_frame \<rparr>"

text \<open>
  An enumerator entry and a HID library that opens both interfaces of the device, the
  object after a successful open and one packet, and the state that packet decodes to.
\<close>

definition example_enumerator :: HMDDeviceEnumerator where
  "example_enumerator =
     \<lparr> get_path = ''hmd'',
       get_interface_path =
         (\<lambda>n. if n = 4 then ''hmd/4'' else if n = 5 then ''hmd/5'' else ''hmd/0'') \<rparr>"

definition example_hid_open_path :: "string \<Rightarrow> hid_device option" where
  "example_hid_open_path path =
     (if path = ''hmd/4'' then Some 1 else if path = ''hmd/5'' then Some 2 else None)"

definition example_state :: "32 word \<Rightarrow> MorpheusHMDState" where
  "example_state n =
     \<lparr> PollSequenceNumber = n,
       SensorFrames = State_parse_data_input example_config example_packet \<rparr>"

definition example_hmd :: MorpheusHMD where
  "example_hmd =
     \<lparr> cfg = example_config,
       HIDDetails =
         \<lparr> device_identifier = ''hmd'', sensor_device_path = ''hmd/4'',
           sensor_device_handle = Some 1, command_device_path = ''hmd/5'',
           command_device_handle = Some 2 \<rparr>,
       NextPollSequenceNumber = 1, InData = example_packet,
       HMDStates = [example_state 0] \<rparr>"

text \<open>
  A configuration document of another version and one of the expected version, each
  holding an accelerometer gain.
\<close>

definition int_node :: "int \<Rightarrow> pt_data" where
  "int_node n =
     \<lparr> as_int = Some n, as_long = Some n, as_float = Some (real_of_int n),
       as_bool = (if n = 0 then Some False else if n = 1 then Some True else None) \<rparr>"

definition float_node :: "real \<Rightarrow> pt_data" where
  "float_node x = \<lparr> as_int = None, as_long = None, as_float = Some x, as_bool = None \<rparr>"

definition example_ptree_v2 :: ptree where
  "example_ptree_v2 =
     [''version'' \<mapsto> int_node 2, ''Calibration.Accel.Gain'' \<mapsto> float_node (1 / 2)]"

definition example_ptree_v1 :: ptree where
  "example_ptree_v1 =
     [''version'' \<mapsto> int_node 1, ''Calibration.Accel.Gain'' \<mapsto> float_node (1 / 2)]"

definition example_readTrackingColor :: "ptree \<Rightarrow> eCommonTrackingColorID" where
  "example_readTrackingColor pt =
     (case pt ''tracking_color'' of None \<Rightarrow> UnnamedColor (- 1) | Some n \<Rightarrow> Blue)"

definition example_hmd_full :: MorpheusHMD where
  "example_hmd_full =
     example_hmd\<lparr> NextPollSequenceNumber := 5, HMDStates := map example_state [0, 1, 2, 3, 4] \<rparr>"

text \<open>Two polls of two and one packets, with a redundant open between them.\<close>

definition example_calls :: "hmd_call list" where
  "example_calls =
     [CallPoll [(44, example_packet), (44, example_packet)],
      CallOpen example_hid_open_path example_enumerator,
      CallPoll [(44, example_packet)]]"

section \<open>Properties\<close>

subsection \<open>Rounding to single precision\<close>

text \<open>Powers of two.\<close>

lemma pow2_powr: "pow2 k = 2 powr real_of_int k"
  by (simp add: pow2_def powr_real_of_int inverse_eq_divide)

lemma pow2_pos: "0 < pow2 k"
  by (simp add: pow2_powr)

lemma pow2_add: "pow2 (a + b) = pow2 a * pow2 b"
  by (simp add: pow2_powr powr_add)

lemma pow2_le_iff: "pow2 a \<le> pow2 b \<longleftrightarrow> a \<le> b"
  by (simp add: pow2_powr)

lemma pow2_less_iff: "pow2 a < pow2 b \<longleftrightarrow> a < b"
  by (simp add: pow2_powr)

text \<open>The binade of a magnitude.\<close>

lemma binade_low: "a < pow2 (- 125) \<Longrightarrow> binade n a = - 126"
proof (induction n)
  case 0
  show ?case by simp
next
  case (Suc n)
  have "pow2 (- 125) \<le> pow2 (int n - 125)"
    by (simp add: pow2_le_iff)
  with Suc show ?case by simp
qed

lemma binade_eq:
  "pow2 k \<le> a \<Longrightarrow> a < pow2 (k + 1) \<Longrightarrow> - 125 \<le> k \<Longrightarrow> k < int n - 125 \<Longrightarrow> binade n a = k"
proof (induction n)
  case 0
  then show ?case by simp
next
  case (Suc n)
  show ?case
  proof (cases "pow2 (int n - 125) \<le> a")
    case True
    with Suc.prems(2) have "pow2 (int n - 125) < pow2 (k + 1)" by linarith
    then have "int n - 125 < k + 1" by (simp only: pow2_less_iff)
    with Suc.prems(4) have "k = int n - 125" by simp
    with True show ?thesis by simp
  next
    case False
    with Suc.prems(1) have "pow2 k < pow2 (int n - 125)" by linarith
    then have "k < int n - 125" by (simp only: pow2_less_iff)
    with Suc.IH [OF Suc.prems(1,2,3)] False show ?thesis by simp
  qed
qed

lemma binade_Suc_top: "pow2 (int n - 125) \<le> a \<Longrightarrow> binade (Suc n) a = int n - 125"
  by simp

lemma binade_top: "pow2 127 \<le> a \<Longrightarrow> binade 253 a = 127"
  using binade_Suc_top [of 252 a] by simp

lemma binade_ge: "- 126 \<le> binade n a"
  by (induction n) simp_all

lemma binade_le: "binade n a < int n - 125"
  by (induction n) auto

lemma binade_lower: "pow2 (- 125) \<le> a \<Longrightarrow> 0 < n \<Longrightarrow> pow2 (binade n a) \<le> a"
proof (induction n)
  case 0
  then show ?case by simp
next
  case (Suc n)
  show ?case
  proof (cases "pow2 (int n - 125) \<le> a")
    case True
    then show ?thesis by simp
  next
    case False
    with Suc.prems(1) have "n \<noteq> 0" by (cases n) auto
    with Suc False show ?thesis by simp
  qed
qed

lemma binade_upper: "a < pow2 (int n - 125) \<Longrightarrow> a < pow2 (binade n a + 1)"
proof (induction n)
  case 0
  then show ?case by simp
next
  case (Suc n)
  show ?case
  proof (cases "pow2 (int n - 125) \<le> a")
    case True
    with Suc.prems show ?thesis by (simp add: algebra_simps)
  next
    case False
    with Suc.IH show ?thesis by simp
  qed
qed

text \<open>Rounding to an integer: the error is at most a half, and integers bound it.\<close>

lemma round_half_even_error: "\<bar>real_of_int (round_half_even q) - q\<bar> \<le> 1 / 2"
proof -
  define f where "f = \<lfloor>q\<rfloor>"
  have "real_of_int f \<le> q" "q < real_of_int f + 1"
    unfolding f_def by linarith+
  then show ?thesis
    unfolding round_half_even_def Let_def f_def [symmetric]
    by (auto simp: abs_if)
qed

lemma round_half_even_int: "round_half_even (real_of_int m) = m"
  by (simp add: round_half_even_def)

lemma round_half_even_le: "q \<le> real_of_int n \<Longrightarrow> round_half_even q \<le> n"
proof -
  assume q: "q \<le> real_of_int n"
  then have f: "\<lfloor>q\<rfloor> \<le> n" by (simp add: floor_le_iff) 
  show ?thesis
  proof (cases "\<lfloor>q\<rfloor> = n")
    case True
    with q have "q - real_of_int \<lfloor>q\<rfloor> \<le> 0" by simp
    then show ?thesis using True by (simp add: round_half_even_def Let_def)
  next
    case False
    with f have "\<lfloor>q\<rfloor> + 1 \<le> n" by simp
    with f show ?thesis by (simp add: round_half_even_def Let_def)
  qed
qed

lemma round_half_even_ge: "real_of_int n \<le> q \<Longrightarrow> n \<le> round_half_even q"
proof -
  assume "real_of_int n \<le> q"
  then have "n \<le> \<lfloor>q\<rfloor>" by (simp add: le_floor_iff)
  then show ?thesis by (simp add: round_half_even_def Let_def)
qed

lemma pow2_numeral [simp]: "pow2 128 = 2 ^ 128" "pow2 127 = 2 ^ 127" "pow2 104 = 2 ^ 104"
  by (simp_all add: pow2_def)

lemma pow2_diff_one: "pow2 (e - 1) = pow2 e / 2"
proof -
  have "pow2 e = pow2 ((e - 1) + 1)" by simp
  also have "\<dots> = pow2 (e - 1) * pow2 1" by (rule pow2_add)
  finally show ?thesis by (simp add: pow2_def)
qed

lemma scaled_round_error:
  "\<bar>real_of_int (round_half_even (x / pow2 e)) * pow2 e - x\<bar> \<le> pow2 (e - 1)"
proof -
  have p: "0 < pow2 e" by (rule pow2_pos)
  let ?m = "real_of_int (round_half_even (x / pow2 e))"
  have "\<bar>?m * pow2 e - x\<bar> = \<bar>(?m - x / pow2 e) * pow2 e\<bar>"
    using p by (simp add: algebra_simps)
  also have "\<dots> = \<bar>?m - x / pow2 e\<bar> * pow2 e"
    using p by (simp add: abs_mult)
  also have "\<dots> \<le> (1 / 2) * pow2 e"
    using p round_half_even_error [of "x / pow2 e"] by (intro mult_right_mono) simp_all
  finally show ?thesis by (simp add: pow2_diff_one)
qed

text \<open>Rounding a number whose binade is known, and a number below the normal range.\<close>

lemma float32_round_binade:
  assumes "pow2 k \<le> \<bar>x\<bar>" "\<bar>x\<bar> < pow2 (k + 1)" "- 125 \<le> k" "k \<le> 127"
  shows "float32_round x =
     (let y = real_of_int (round_half_even (x / pow2 (k - 23))) * pow2 (k - 23)
      in if pow2 128 \<le> y then PlusInfinity
         else if y \<le> - pow2 128 then MinusInfinity
         else Finite y)"
proof -
  from assms have "binade 253 \<bar>x\<bar> = k"
    by (intro binade_eq) simp_all
  then show ?thesis
    unfolding float32_round_def by (simp only: Let_def)
qed

lemma float32_round_subnormal:
  assumes "\<bar>x\<bar> < pow2 (- 125)"
  shows "float32_round x = Finite (real_of_int (round_half_even (x / pow2 (- 149))) * pow2 (- 149))"
proof -
  let ?y = "real_of_int (round_half_even (x / pow2 (- 149))) * pow2 (- 149)"
  from assms have b: "binade 253 \<bar>x\<bar> = - 126" by (rule binade_low)
  have "\<bar>?y - x\<bar> \<le> pow2 (- 149 - 1)" by (rule scaled_round_error)
  moreover have "pow2 (- 150) \<le> 1" "pow2 (- 125) \<le> 1"
    by (simp_all add: pow2_def)
  ultimately have "\<bar>?y\<bar> < 3" using assms by (simp add: abs_if split: if_splits)
  then have "\<not> pow2 128 \<le> ?y" "\<not> ?y \<le> - pow2 128"
    by (simp_all add: abs_if split: if_splits)
  with b show ?thesis
    unfolding float32_round_def by (simp add: Let_def)
qed

lemma abs_pow2 [simp]: "\<bar>pow2 k\<bar> = pow2 k"
  using pow2_pos [of k] by simp

lemma binade_253_bounds: "- 126 \<le> binade 253 a" "binade 253 a \<le> 127"
  using binade_ge [of 253 a] binade_le [of 253 a] by simp_all

lemma pow2_binade_le:
  assumes "pow2 (- 126) \<le> a"
  shows "pow2 (binade 253 a) \<le> a"
proof (cases "pow2 (- 125) \<le> a")
  case True
  then show ?thesis by (intro binade_lower) simp_all
next
  case False
  then have "binade 253 a = - 126" by (intro binade_low) simp
  with assms show ?thesis by simp
qed

lemma less_pow2_binade:
  assumes "a < pow2 128"
  shows "a < pow2 (binade 253 a + 1)"
  using assms binade_upper [of a 253] by simp

text \<open>A number within the range of the finite values rounds to a finite value.\<close>

lemma float32_round_finite:
  assumes "\<bar>x\<bar> \<le> max_float32"
  shows "float32_round x =
     Finite (real_of_int (round_half_even (x / pow2 (binade 253 \<bar>x\<bar> - 23))) *
             pow2 (binade 253 \<bar>x\<bar> - 23))"
proof -
  define b where "b = binade 253 \<bar>x\<bar>"
  define m where "m = round_half_even (x / pow2 (b - 23))"
  have p: "0 < pow2 (b - 23)" by (rule pow2_pos)
  have m128: "max_float32 < pow2 128"
    by (simp add: max_float32_def)
  with assms have x128: "\<bar>x\<bar> < pow2 128" by linarith
  have bb: "- 126 \<le> b" "b \<le> 127"
    unfolding b_def by (rule binade_253_bounds)+
  have ad: "\<bar>x / pow2 (b - 23)\<bar> = \<bar>x\<bar> / pow2 (b - 23)"
    by simp
  have "\<bar>x\<bar> / pow2 (b - 23) \<le> real_of_int (2 ^ 24 - 1) \<or>
      (b \<le> 126 \<and> \<bar>x\<bar> / pow2 (b - 23) \<le> real_of_int (2 ^ 24))"
  proof (cases "b = 127")
    case True
    with assms have "\<bar>x\<bar> / pow2 (b - 23) \<le> 2 ^ 24 - 1"
      by (simp add: max_float32_def field_simps)
    then show ?thesis by simp
  next
    case False
    with bb have b126: "b \<le> 126" by simp
    have "(b - 23) + 24 = binade 253 \<bar>x\<bar> + 1"
      by (simp add: b_def)
    with less_pow2_binade [OF x128] have "\<bar>x\<bar> < pow2 ((b - 23) + 24)"
      by (simp only:)
    then have "\<bar>x\<bar> < pow2 (b - 23) * 2 ^ 24"
      by (simp only: pow2_add) (simp add: pow2_def)
    then have "\<bar>x\<bar> / pow2 (b - 23) \<le> 2 ^ 24"
      using p by (simp add: field_simps)
    with b126 show ?thesis by simp
  qed
  then have q: "\<bar>x / pow2 (b - 23)\<bar> \<le> real_of_int (2 ^ 24 - 1) \<or>
      (b \<le> 126 \<and> \<bar>x / pow2 (b - 23)\<bar> \<le> real_of_int (2 ^ 24))"
    by (simp only: ad)
  have mb: "\<bar>real_of_int m\<bar> * pow2 (b - 23) < pow2 128"
  proof -
    from q show ?thesis
    proof
      assume a: "\<bar>x / pow2 (b - 23)\<bar> \<le> real_of_int (2 ^ 24 - 1)"
      then have "m \<le> 2 ^ 24 - 1" "- (2 ^ 24 - 1) \<le> m"
        unfolding m_def
        by (intro round_half_even_le round_half_even_ge; simp add: abs_if split: if_splits)+
      then have "\<bar>real_of_int m\<bar> \<le> 2 ^ 24 - 1"
        by (simp add: abs_if)
      then have "\<bar>real_of_int m\<bar> * pow2 (b - 23) \<le> (2 ^ 24 - 1) * pow2 (b - 23)"
        using p by (simp add: mult_right_mono)
      also have "pow2 (b - 23) \<le> pow2 104"
        using bb by (simp only: pow2_le_iff)
      then have "(2 ^ 24 - 1) * pow2 (b - 23) \<le> (2 ^ 24 - 1) * pow2 104"
        by (simp add: mult_left_mono)
      also have "\<dots> < pow2 128"
        by simp
      finally show ?thesis .
    next
      assume a: "b \<le> 126 \<and> \<bar>x / pow2 (b - 23)\<bar> \<le> real_of_int (2 ^ 24)"
      then have "m \<le> 2 ^ 24" "- (2 ^ 24) \<le> m"
        unfolding m_def
        by (intro round_half_even_le round_half_even_ge; simp add: abs_if split: if_splits)+
      then have "\<bar>real_of_int m\<bar> \<le> 2 ^ 24"
        by (simp add: abs_if)
      then have "\<bar>real_of_int m\<bar> * pow2 (b - 23) \<le> 2 ^ 24 * pow2 (b - 23)"
        using p by (simp add: mult_right_mono)
      also have "pow2 (b - 23) \<le> pow2 103"
        using a by (simp only: pow2_le_iff) linarith
      then have "2 ^ 24 * pow2 (b - 23) \<le> 2 ^ 24 * pow2 103"
        by (simp add: mult_left_mono)
      also have "\<dots> < pow2 128"
        by (simp add: pow2_def)
      finally show ?thesis .
    qed
  qed
  have "\<bar>real_of_int m * pow2 (b - 23)\<bar> < pow2 128"
    using mb p by (simp add: abs_mult)
  then have "\<not> pow2 128 \<le> real_of_int m * pow2 (b - 23)"
    "\<not> real_of_int m * pow2 (b - 23) \<le> - pow2 128"
    by (simp_all add: abs_if split: if_splits)
  then show ?thesis
    unfolding float32_round_def Let_def b_def [symmetric] m_def [symmetric]
    by (simp only: if_False)
qed

text \<open>
  The error of the rounding: at most half the spacing of the binade, which is
  \<open>2 ^ - 24\<close> of the number in the normal range and \<open>2 ^ - 150\<close> below it.
\<close>

lemma float32_round_error:
  assumes "\<bar>x\<bar> \<le> max_float32"
  shows "\<exists>y. float32_round x = Finite y \<and> \<bar>y - x\<bar> \<le> pow2 (binade 253 \<bar>x\<bar> - 24)"
proof -
  let ?e = "binade 253 \<bar>x\<bar> - 23"
  let ?y = "real_of_int (round_half_even (x / pow2 ?e)) * pow2 ?e"
  have "\<bar>?y - x\<bar> \<le> pow2 (?e - 1)" by (rule scaled_round_error)
  also have "?e - 1 = binade 253 \<bar>x\<bar> - 24" by linarith
  finally have "\<bar>?y - x\<bar> \<le> pow2 (binade 253 \<bar>x\<bar> - 24)" .
  with float32_round_finite [OF assms] show ?thesis by blast
qed

lemma float32_round_relative:
  assumes "pow2 (- 126) \<le> \<bar>x\<bar>" "\<bar>x\<bar> \<le> max_float32"
  shows "\<exists>y. float32_round x = Finite y \<and> \<bar>y - x\<bar> \<le> \<bar>x\<bar> / 2 ^ 24"
proof -
  from float32_round_error [OF assms(2)] obtain y where
    y: "float32_round x = Finite y" "\<bar>y - x\<bar> \<le> pow2 (binade 253 \<bar>x\<bar> - 24)"
    by blast
  have "pow2 (binade 253 \<bar>x\<bar> - 24) = pow2 (binade 253 \<bar>x\<bar> + (- 24))" by simp
  also have "\<dots> = pow2 (binade 253 \<bar>x\<bar>) * pow2 (- 24)" by (rule pow2_add)
  also have "\<dots> = pow2 (binade 253 \<bar>x\<bar>) / 2 ^ 24" by (simp add: pow2_def)
  also have "\<dots> \<le> \<bar>x\<bar> / 2 ^ 24"
    using pow2_binade_le [OF assms(1)] by (simp add: divide_right_mono)
  finally show ?thesis using y by auto
qed

lemma float32_round_absolute:
  assumes "\<bar>x\<bar> < pow2 (- 126)"
  shows "\<exists>y. float32_round x = Finite y \<and> \<bar>y - x\<bar> \<le> pow2 (- 150)"
proof -
  have "pow2 (- 126) \<le> pow2 (- 125)" by (simp only: pow2_le_iff)
  with assms have l: "\<bar>x\<bar> < pow2 (- 125)" by linarith
  have "\<bar>real_of_int (round_half_even (x / pow2 (- 149))) * pow2 (- 149) - x\<bar> \<le> pow2 (- 149 - 1)"
    by (rule scaled_round_error)
  with float32_round_subnormal [OF l] show ?thesis by simp
qed

text \<open>Beyond the finite values the result is an infinity.\<close>

lemma float32_round_overflow:
  "pow2 128 \<le> x \<Longrightarrow> float32_round x = PlusInfinity"
  "x \<le> - pow2 128 \<Longrightarrow> float32_round x = MinusInfinity"
proof -
  have p: "0 < pow2 104" by (rule pow2_pos)
  have e: "pow2 128 = real_of_int (2 ^ 24) * pow2 104" by simp
  {
    assume x: "pow2 128 \<le> x"
    then have a: "\<bar>x\<bar> = x" by simp
    have "pow2 127 \<le> pow2 128" by (simp only: pow2_le_iff)
    with x have b: "binade 253 \<bar>x\<bar> = 127" by (intro binade_top) (simp only: a)
    from x have "real_of_int (2 ^ 24) \<le> x / pow2 104"
      by (simp add: field_simps)
    then have "2 ^ 24 \<le> round_half_even (x / pow2 104)" by (rule round_half_even_ge)
    then have "real_of_int (2 ^ 24) \<le> real_of_int (round_half_even (x / pow2 104))"
      by (simp only: of_int_le_iff)
    then have "real_of_int (2 ^ 24) * pow2 104 \<le> real_of_int (round_half_even (x / pow2 104)) * pow2 104"
      using p by (simp only: mult_le_cancel_right_pos)
    then have "pow2 128 \<le> real_of_int (round_half_even (x / pow2 104)) * pow2 104"
      by (simp only: e)
    then show "float32_round x = PlusInfinity"
      unfolding float32_round_def Let_def b by simp
  }
  {
    assume x: "x \<le> - pow2 128"
    then have a: "\<bar>x\<bar> = - x" by simp
    have "pow2 127 \<le> pow2 128" by (simp only: pow2_le_iff)
    with x have "pow2 127 \<le> - x" by linarith
    then have b: "binade 253 \<bar>x\<bar> = 127" by (intro binade_top) (simp only: a)
    from x have "x / pow2 104 \<le> real_of_int (- (2 ^ 24))"
      by (simp add: field_simps)
    then have "round_half_even (x / pow2 104) \<le> - (2 ^ 24)" by (rule round_half_even_le)
    then have "real_of_int (round_half_even (x / pow2 104)) \<le> real_of_int (- (2 ^ 24))"
      by (simp only: of_int_le_iff)
    then have "real_of_int (round_half_even (x / pow2 104)) * pow2 104 \<le> real_of_int (- (2 ^ 24)) * pow2 104"
      using p by (simp only: mult_le_cancel_right_pos)
    then have m: "real_of_int (round_half_even (x / pow2 104)) * pow2 104 \<le> - pow2 128"
      by (simp only: e)
    have "\<not> pow2 128 \<le> - pow2 128" by simp
    with m have "\<not> pow2 128 \<le> real_of_int (round_half_even (x / pow2 104)) * pow2 104"
      by linarith
    with m show "float32_round x = MinusInfinity"
      unfolding float32_round_def Let_def b by simp
  }
qed

text \<open>
  A number that is a \<^verbatim>\<open>float\<close> is left as it is; every \<^verbatim>\<open>short\<close> is one.
\<close>

lemma float32_round_exact:
  assumes m: "\<bar>m\<bar> < 2 ^ 24" and j: "- 149 \<le> j" "j \<le> 104"
  shows "float32_round (real_of_int m * pow2 j) = Finite (real_of_int m * pow2 j)"
proof -
  define x where "x = real_of_int m * pow2 j"
  define e where "e = binade 253 \<bar>x\<bar> - 23"
  have pj: "0 < pow2 j" and pe: "0 < pow2 e" by (rule pow2_pos)+
  have ax: "\<bar>x\<bar> = real_of_int \<bar>m\<bar> * pow2 j"
    by (simp add: x_def abs_mult)
  from m have m': "real_of_int \<bar>m\<bar> \<le> 2 ^ 24 - 1" "real_of_int \<bar>m\<bar> < 2 ^ 24"
    by simp_all
  have "\<bar>x\<bar> \<le> (2 ^ 24 - 1) * pow2 j"
    unfolding ax using m'(1) pj by (simp add: mult_right_mono)
  also have "pow2 j \<le> pow2 104"
    using j by (simp only: pow2_le_iff)
  then have "(2 ^ 24 - 1) * pow2 j \<le> (2 ^ 24 - 1) * pow2 104"
    by (simp add: mult_left_mono)
  finally have mx: "\<bar>x\<bar> \<le> max_float32"
    by (simp add: max_float32_def)
  have lt: "\<bar>x\<bar> < pow2 (24 + j)"
  proof -
    have "\<bar>x\<bar> < 2 ^ 24 * pow2 j"
      unfolding ax using m'(2) pj by (simp only: mult_less_cancel_right_pos)
    also have "\<dots> = pow2 24 * pow2 j" by (simp add: pow2_def)
    also have "\<dots> = pow2 (24 + j)" by (simp only: pow2_add)
    finally show ?thesis .
  qed
  have ej: "e \<le> j"
  proof (cases "pow2 (- 125) \<le> \<bar>x\<bar>")
    case True
    then have "pow2 (binade 253 \<bar>x\<bar>) \<le> \<bar>x\<bar>" by (intro binade_lower) simp_all
    with lt have "pow2 (binade 253 \<bar>x\<bar>) < pow2 (24 + j)" by linarith
    then have "binade 253 \<bar>x\<bar> < 24 + j" by (simp only: pow2_less_iff)
    then show ?thesis by (simp add: e_def)
  next
    case False
    then have "binade 253 \<bar>x\<bar> = - 126" by (intro binade_low) simp
    with j show ?thesis by (simp add: e_def)
  qed
  define d where "d = nat (j - e)"
  have "pow2 j = pow2 ((j - e) + e)" by simp
  also have "\<dots> = pow2 (j - e) * pow2 e" by (rule pow2_add)
  also have "pow2 (j - e) = 2 ^ d" using ej by (simp add: pow2_def d_def)
  finally have pje: "pow2 j = 2 ^ d * pow2 e" .
  have "x / pow2 e = real_of_int (m * 2 ^ d)"
    using pe by (simp add: x_def pje)
  then have r: "round_half_even (x / pow2 e) = m * 2 ^ d"
    by (simp only: round_half_even_int)
  have "real_of_int (m * 2 ^ d) * pow2 e = x"
    by (simp add: x_def pje)
  with float32_round_finite [OF mx] show ?thesis
    unfolding e_def [symmetric] r x_def [symmetric] by (simp only:)
qed

lemma short_is_float32:
  "float32_round (real_of_int (sint (w :: 16 word))) = Finite (real_of_int (sint w))"
proof -
  have "- (2 ^ 15) \<le> sint w" "sint w < 2 ^ 15"
    using sint_ge [of w] sint_lt [of w] by simp_all
  then have "\<bar>sint w\<bar> < 2 ^ 24" by (simp add: abs_if)
  from float32_round_exact [OF this, of 0] show ?thesis
    by (simp add: pow2_def)
qed

text \<open>The product of 4660 and the \<^verbatim>\<open>float\<close> nearest to a tenth.\<close>

lemma float32_round_example: "float32_round (4660 * (13421773 / 134217728)) = Finite 466"
proof -
  have q: "4660 * (13421773 / 134217728) / pow2 (8 - 23) = (15636365545 / 1024 :: real)"
    by (simp add: pow2_def)
  have f: "\<lfloor>15636365545 / 1024 :: real\<rfloor> = 15269888"
    by simp
  have r: "round_half_even (15636365545 / 1024) = 15269888"
    unfolding round_half_even_def Let_def f by simp
  have "float32_round (4660 * (13421773 / 134217728)) =
     (let y = real_of_int (round_half_even (4660 * (13421773 / 134217728) / pow2 (8 - 23))) * pow2 (8 - 23)
      in if pow2 128 \<le> y then PlusInfinity
         else if y \<le> - pow2 128 then MinusInfinity
         else Finite y)"
    by (rule float32_round_binade) (simp_all add: pow2_def)
  also have "\<dots> = Finite 466"
    unfolding q r Let_def by (simp add: pow2_def)
  finally show ?thesis .
qed

subsection \<open>Decoding\<close>

text \<open>The two bytes side by side are the number \<open>256 * high + low\<close>.\<close>

lemma uint_piece: "uint (piece_together (lo, hi)) = 256 * uint hi + uint lo"
proof -
  have b: "uint lo < 256" "uint hi < 256" "0 \<le> uint lo" "0 \<le> uint hi"
   using uint_bounded[of lo] uint_bounded[of hi] by simp_all
  have lo: "take_bit 8 (uint lo) = uint lo" using b by (simp add: take_bit_eq_mod)
  have "push_bit 8 (uint hi) OR uint lo = concat_bit 8 (uint lo) (uint hi)"
    by (simp add: concat_bit_def lo or.commute)
  also have "\<dots> = uint lo + 256 * uint hi"
    by (simp add: concat_bit_eq lo push_bit_eq_mult)
  finally have e: "push_bit 8 (uint hi) OR uint lo = uint lo + 256 * uint hi" .
  have r: "uint lo + 256 * uint hi < 65536" using b by arith
  have m: "uint hi mod 4294967296 = uint hi" "uint lo mod 4294967296 = uint lo"
    using b by simp_all
  have "uint (piece_together (lo, hi)) = take_bit 16 (take_bit 32 (push_bit 8 (uint hi)) OR uint lo)"
    unfolding piece_together_def
    by (simp add: uint_or unsigned_ucast_eq unsigned_push_bit_eq unsigned_take_bit_eq take_bit_eq_mod m)
  also have "take_bit 32 (push_bit 8 (uint hi)) = push_bit 8 (uint hi)"
    using b by (simp add: take_bit_eq_mod push_bit_eq_mult)
  finally show ?thesis using b r by (simp add: e take_bit_eq_mod)
qed

text \<open>Read as a \<^verbatim>\<open>short\<close>, it is the signed 16-bit number of the specification.\<close>

lemma sint_piece: "sint (piece_together b) = signed16_le b"
proof (cases b)
  case (Pair lo hi)
  define v where "v = 256 * uint hi + uint lo"
  have b: "uint lo < 256" "uint hi < 256" "0 \<le> uint lo" "0 \<le> uint hi"
   using uint_bounded[of lo] uint_bounded[of hi] by simp_all
  have v: "0 \<le> v" "v < 65536" using b unfolding v_def by arith+
  have "sint (piece_together b) = signed_take_bit 15 v"
    by (simp add: Pair sint_uint uint_piece v_def)
  also have "\<dots> = (if v < 32768 then v else v - 65536)"
  proof (cases "v < 32768")
    case True
    with v show ?thesis
      by (simp add: signed_take_bit_eq_take_bit_shift take_bit_eq_mod)
  next
    case False
    have "v + 32768 = (v - 32768) + 65536"
      by linarith
    then have "(v + 32768) mod 65536 = ((v - 32768) + 65536) mod 65536"
      by (rule arg_cong)
    also have "\<dots> = (v - 32768) mod 65536"
      by (simp only: mod_add_self2)
    also have "\<dots> = v - 32768"
      using v False by simp
    finally show ?thesis
      using False by (simp add: signed_take_bit_eq_take_bit_shift take_bit_eq_mod)
  qed
  finally show ?thesis
    by (simp add: Pair signed16_le_def Let_def v_def)
qed

text \<open>
  C4. Every axis of a decoded sensor frame holds, as raw value, the signed 16-bit number
  whose low byte is the first transmitted byte and whose high byte is the second, and as
  calibrated value the product of that raw value (as a \<^verbatim>\<open>float\<close>) and the gain of its
  sensor class (accelerometer or gyroscope), rounded to single precision as \<^verbatim>\<open>float\<close>
  multiplication rounds. Both sub-frames of a packet are decoded this way. The byte pair
  \<open>[0x34, 0x12]\<close> gives 4660 and the calibrated value \<open>4660 * g\<close>, rounded. The rounded
  product \<open>y\<close> of a product \<open>x\<close> in the normal range is within \<open>\<bar>x\<bar> / 2 ^ 24\<close> of \<open>x\<close>,
  below that range within \<open>2 ^ - 150\<close>, and it is \<open>x\<close> itself when \<open>x\<close> is a \<^verbatim>\<open>float\<close>,
  as it is for every gain that is a power of two from \<open>2 ^ - 149\<close> to \<open>2 ^ 104\<close>.
\<close>

theorem parse_data_input_decodes:
  "RawAccel (SensorFrame_parse_data_input config d) =
     (signed16_le (accel_x d), signed16_le (accel_y d), signed16_le (accel_z d)) \<and>
   RawGyro (SensorFrame_parse_data_input config d) =
     (signed16_le (gyro_x d), signed16_le (gyro_y d), signed16_le (gyro_z d)) \<and>
   CalibratedAccel (SensorFrame_parse_data_input config d) =
     (float32_round (real_of_int (signed16_le (accel_x d)) * accelerometer_gain config),
      float32_round (real_of_int (signed16_le (accel_y d)) * accelerometer_gain config),
      float32_round (real_of_int (signed16_le (accel_z d)) * accelerometer_gain config)) \<and>
   CalibratedGyro (SensorFrame_parse_data_input config d) =
     (float32_round (real_of_int (signed16_le (gyro_x d)) * gyro_gain config),
      float32_round (real_of_int (signed16_le (gyro_y d)) * gyro_gain config),
      float32_round (real_of_int (signed16_le (gyro_z d)) * gyro_gain config)) \<and>
   State_parse_data_input config pkt =
     (SensorFrame_parse_data_input config (imu_frame_0 pkt),
      SensorFrame_parse_data_input config (imu_frame_1 pkt)) \<and>
   sint (piece_together (0x34, 0x12)) = 4660 \<and>
   RawAccel (SensorFrame_parse_data_input config (d\<lparr> accel_x := (0x34, 0x12) \<rparr>)) =
     (4660, signed16_le (accel_y d), signed16_le (accel_z d)) \<and>
   fst (CalibratedAccel (SensorFrame_parse_data_input config (d\<lparr> accel_x := (0x34, 0x12) \<rparr>))) =
     float32_round (4660 * accelerometer_gain config) \<and>
   fst (CalibratedGyro (SensorFrame_parse_data_input config (d\<lparr> gyro_x := (0x34, 0x12) \<rparr>))) =
     float32_round (4660 * gyro_gain config) \<and>
   (pow2 (- 126) \<le> \<bar>x\<bar> \<longrightarrow> \<bar>x\<bar> \<le> max_float32 \<longrightarrow>
      (\<exists>y. float32_round x = Finite y \<and> \<bar>y - x\<bar> \<le> \<bar>x\<bar> / 2 ^ 24)) \<and>
   (\<bar>x\<bar> < pow2 (- 126) \<longrightarrow>
      (\<exists>y. float32_round x = Finite y \<and> \<bar>y - x\<bar> \<le> pow2 (- 150))) \<and>
   (\<bar>m\<bar> < 2 ^ 24 \<longrightarrow> - 149 \<le> j \<longrightarrow> j \<le> 104 \<longrightarrow>
      float32_round (real_of_int m * pow2 j) = Finite (real_of_int m * pow2 j))"
proof -
  have e: "signed16_le (0x34, 0x12) = 4660"
    by (simp add: signed16_le_def)
  have c: "RawAccel (SensorFrame_parse_data_input config d) =
     (signed16_le (accel_x d), signed16_le (accel_y d), signed16_le (accel_z d)) \<and>
   RawGyro (SensorFrame_parse_data_input config d) =
     (signed16_le (gyro_x d), signed16_le (gyro_y d), signed16_le (gyro_z d)) \<and>
   CalibratedAccel (SensorFrame_parse_data_input config d) =
     (float32_round (real_of_int (signed16_le (accel_x d)) * accelerometer_gain config),
      float32_round (real_of_int (signed16_le (accel_y d)) * accelerometer_gain config),
      float32_round (real_of_int (signed16_le (accel_z d)) * accelerometer_gain config)) \<and>
   CalibratedGyro (SensorFrame_parse_data_input config d) =
     (float32_round (real_of_int (signed16_le (gyro_x d)) * gyro_gain config),
      float32_round (real_of_int (signed16_le (gyro_y d)) * gyro_gain config),
      float32_round (real_of_int (signed16_le (gyro_z d)) * gyro_gain config)) \<and>
   State_parse_data_input config pkt =
     (SensorFrame_parse_data_input config (imu_frame_0 pkt),
      SensorFrame_parse_data_input config (imu_frame_1 pkt)) \<and>
   sint (piece_together (0x34, 0x12)) = 4660 \<and>
   RawAccel (SensorFrame_parse_data_input config (d\<lparr> accel_x := (0x34, 0x12) \<rparr>)) =
     (4660, signed16_le (accel_y d), signed16_le (accel_z d)) \<and>
   fst (CalibratedAccel (SensorFrame_parse_data_input config (d\<lparr> accel_x := (0x34, 0x12) \<rparr>))) =
     float32_round (4660 * accelerometer_gain config) \<and>
   fst (CalibratedGyro (SensorFrame_parse_data_input config (d\<lparr> gyro_x := (0x34, 0x12) \<rparr>))) =
     float32_round (4660 * gyro_gain config)"
    unfolding SensorFrame_parse_data_input_def State_parse_data_input_def Let_def sint_piece
      float32_mul_def
    by (simp add: e)
  from c float32_round_relative [of x] float32_round_absolute [of x]
    float32_round_exact [of m j]
  show ?thesis
    by blast
qed

text \<open>
  The decoder at a frame with positive, negative and extreme axes, under gains that are
  powers of two; and the axis 4660 under the gain \<open>13421773 / 2 ^ 27\<close>, the \<^verbatim>\<open>float\<close>
  nearest to a tenth: the product is rounded to 466, within the tolerance.
\<close>

theorem parse_data_input_decodes_example:
  "RawAccel (SensorFrame_parse_data_input example_config example_frame) = (4660, - 1, - 32768) \<and>
   RawGyro (SensorFrame_parse_data_input example_config example_frame) = (0, 1, 32767) \<and>
   CalibratedAccel (SensorFrame_parse_data_input example_config example_frame) =
     (Finite (4660 / 8192), Finite (- 1 / 8192), Finite (- 4)) \<and>
   CalibratedGyro (SensorFrame_parse_data_input example_config example_frame) =
     (Finite 0, Finite (1 / 1024), Finite (32767 / 1024)) \<and>
   fst (CalibratedAccel (SensorFrame_parse_data_input
     (example_config\<lparr> accelerometer_gain := 13421773 / 134217728 \<rparr>) example_frame)) =
     Finite 466 \<and>
   pow2 (- 126) \<le> \<bar>4660 * (13421773 / 134217728) :: real\<bar> \<and>
   \<bar>4660 * (13421773 / 134217728) :: real\<bar> \<le> max_float32 \<and>
   \<bar>466 - 4660 * (13421773 / 134217728) :: real\<bar> \<le> \<bar>4660 * (13421773 / 134217728)\<bar> / 2 ^ 24"
proof -
  let ?x = "4660 * (13421773 / 134217728) :: real"
  let ?c = "example_config\<lparr> accelerometer_gain := 13421773 / 134217728 \<rparr>"
  note t = parse_data_input_decodes [of example_config example_frame example_packet ?x 4660 "- 13"]
  note u = parse_data_input_decodes [of ?c example_frame example_packet ?x 4660 "- 13"]
  have s: "signed16_le (accel_x example_frame) = 4660" "signed16_le (accel_y example_frame) = - 1"
    "signed16_le (accel_z example_frame) = - 32768" "signed16_le (gyro_x example_frame) = 0"
    "signed16_le (gyro_y example_frame) = 1" "signed16_le (gyro_z example_frame) = 32767"
    by (simp_all add: signed16_le_def example_frame_def)
  have g: "accelerometer_gain example_config = pow2 (- 13)" "gyro_gain example_config = pow2 (- 10)"
    by (simp_all add: example_config_def pow2_def)
  have r: "float32_round (real_of_int 4660 * pow2 (- 13)) = Finite (4660 / 8192)"
    "float32_round (real_of_int (- 1) * pow2 (- 13)) = Finite (- 1 / 8192)"
    "float32_round (real_of_int (- 32768) * pow2 (- 13)) = Finite (- 4)"
    "float32_round (real_of_int 0 * pow2 (- 10)) = Finite 0"
    "float32_round (real_of_int 1 * pow2 (- 10)) = Finite (1 / 1024)"
    "float32_round (real_of_int 32767 * pow2 (- 10)) = Finite (32767 / 1024)"
    by (subst float32_round_exact; simp add: pow2_def)+
  from t have a: "RawAccel (SensorFrame_parse_data_input example_config example_frame) =
      (4660, - 1, - 32768)"
    by (simp only: s)
  from t have b: "RawGyro (SensorFrame_parse_data_input example_config example_frame) = (0, 1, 32767)"
    by (simp only: s)
  from t have "CalibratedAccel (SensorFrame_parse_data_input example_config example_frame) =
      (float32_round (real_of_int 4660 * pow2 (- 13)), float32_round (real_of_int (- 1) * pow2 (- 13)),
       float32_round (real_of_int (- 32768) * pow2 (- 13)))"
    by (simp only: s g)
  then have c: "CalibratedAccel (SensorFrame_parse_data_input example_config example_frame) =
      (Finite (4660 / 8192), Finite (- 1 / 8192), Finite (- 4))"
    by (simp only: r)
  from t have "CalibratedGyro (SensorFrame_parse_data_input example_config example_frame) =
      (float32_round (real_of_int 0 * pow2 (- 10)), float32_round (real_of_int 1 * pow2 (- 10)),
       float32_round (real_of_int 32767 * pow2 (- 10)))"
    by (simp only: s g)
  then have d: "CalibratedGyro (SensorFrame_parse_data_input example_config example_frame) =
      (Finite 0, Finite (1 / 1024), Finite (32767 / 1024))"
    by (simp only: r)
  have ga: "accelerometer_gain ?c = 13421773 / 134217728"
    by simp
  from u have "fst (CalibratedAccel (SensorFrame_parse_data_input ?c example_frame)) =
      float32_round (real_of_int (signed16_le (accel_x example_frame)) * accelerometer_gain ?c)"
    by simp
  moreover have "float32_round (real_of_int 4660 * (13421773 / 134217728)) = Finite 466"
    using float32_round_example by simp
  ultimately have f: "fst (CalibratedAccel (SensorFrame_parse_data_input ?c example_frame)) =
      Finite 466"
    by (simp only: s ga)
  have lo: "pow2 (- 126) \<le> \<bar>?x\<bar>"
    by (simp add: pow2_def)
  have hi: "\<bar>?x\<bar> \<le> max_float32"
    by (simp add: max_float32_def)
  from t lo hi obtain y where "float32_round ?x = Finite y" "\<bar>y - ?x\<bar> \<le> \<bar>?x\<bar> / 2 ^ 24"
    by blast
  with float32_round_example have k: "\<bar>466 - ?x\<bar> \<le> \<bar>?x\<bar> / 2 ^ 24"
    by simp
  from a b c d f lo hi k show ?thesis
    by (intro conjI)
qed

subsection \<open>Tracking colour\<close>

text \<open>
  C8. Whatever the object and whatever colour its configuration holds,
  \<^verbatim>\<open>getTrackingColorID\<close> writes Blue to its out-parameter and returns true.
\<close>

theorem getTrackingColorID_fixed:
  "getTrackingColorID s out_tracking_color_id = (Blue, True) \<and>
   getTrackingColorID (s\<lparr> cfg := (cfg s)\<lparr> tracking_color_id := col \<rparr> \<rparr>) out_tracking_color_id =
     (Blue, True)"
  by (simp add: getTrackingColorID_def)

subsection \<open>Closing\<close>

text \<open>
  C3, as the specification has it, fails: \<^verbatim>\<open>close\<close> resets the transport details and the
  packet buffer, and never touches the history. The open object with one entry in its
  history still has that entry after \<^verbatim>\<open>close\<close>.
\<close>

theorem close_keeps_history_counterexample:
  "getIsOpen example_hmd \<and> HMDStates (snd (MorpheusHMD_close example_hmd)) \<noteq> []"
  by (simp add: getIsOpen_def MorpheusHMD_close_def example_hmd_def)

text \<open>
  C3, amended. \<^verbatim>\<open>close\<close> on an open object gives both handles to \<^verbatim>\<open>hid_close\<close>,
  resets the transport details and zeroes the packet buffer; the object is then closed.
  The history, the configuration and the sequence counter are left as they are. On an
  object with no handle \<^verbatim>\<open>close\<close> changes nothing and closes nothing, so a second
  \<^verbatim>\<open>close\<close> is a no-op.
\<close>

theorem close_resets_transport:
  "(\<forall>h1 h2. sensor_device_handle (HIDDetails s) = Some h1 \<longrightarrow>
            command_device_handle (HIDDetails s) = Some h2 \<longrightarrow>
      MorpheusHMD_close s =
        ([h1, h2], s\<lparr> HIDDetails := HIDDetails_Reset, InData := DataInput_Reset \<rparr>)) \<and>
   set (fst (MorpheusHMD_close s)) =
     set_option (sensor_device_handle (HIDDetails s)) \<union>
     set_option (command_device_handle (HIDDetails s)) \<and>
   (getIsOpen s \<longrightarrow>
      HIDDetails (snd (MorpheusHMD_close s)) = HIDDetails_Reset \<and>
      InData (snd (MorpheusHMD_close s)) = DataInput_Reset) \<and>
   \<not> getIsOpen (snd (MorpheusHMD_close s)) \<and>
   sensor_device_handle (HIDDetails (snd (MorpheusHMD_close s))) = None \<and>
   command_device_handle (HIDDetails (snd (MorpheusHMD_close s))) = None \<and>
   HMDStates (snd (MorpheusHMD_close s)) = HMDStates s \<and>
   cfg (snd (MorpheusHMD_close s)) = cfg s \<and>
   NextPollSequenceNumber (snd (MorpheusHMD_close s)) = NextPollSequenceNumber s \<and>
   (\<not> getIsOpen s \<longrightarrow> sensor_device_handle (HIDDetails s) = None \<longrightarrow>
      command_device_handle (HIDDetails s) = None \<longrightarrow> MorpheusHMD_close s = ([], s)) \<and>
   MorpheusHMD_close (snd (MorpheusHMD_close s)) = ([], snd (MorpheusHMD_close s))"
  by (auto simp: getIsOpen_def MorpheusHMD_close_def HIDDetails_Reset_def split: option.splits)

text \<open>The open example object: both handles are closed, the history stays.\<close>

theorem close_resets_transport_witness:
  "getIsOpen example_hmd \<and>
   MorpheusHMD_close example_hmd =
     ([1, 2], example_hmd\<lparr> HIDDetails := HIDDetails_Reset, InData := DataInput_Reset \<rparr>) \<and>
   HMDStates (snd (MorpheusHMD_close example_hmd)) = [example_state 0] \<and>
   \<not> getIsOpen (snd (MorpheusHMD_close example_hmd)) \<and>
   MorpheusHMD_close (snd (MorpheusHMD_close example_hmd)) =
     ([], snd (MorpheusHMD_close example_hmd))"
proof -
  have h: "sensor_device_handle (HIDDetails example_hmd) = Some 1"
    "command_device_handle (HIDDetails example_hmd) = Some 2"
    by (simp_all add: example_hmd_def)
  have o: "getIsOpen example_hmd"
    by (simp add: getIsOpen_def h)
  have s: "HMDStates example_hmd = [example_state 0]"
    by (simp add: example_hmd_def)
  note t = close_resets_transport [of example_hmd]
  from t h have c: "MorpheusHMD_close example_hmd =
     ([1, 2], example_hmd\<lparr> HIDDetails := HIDDetails_Reset, InData := DataInput_Reset \<rparr>)"
    by blast
  from t s have k: "HMDStates (snd (MorpheusHMD_close example_hmd)) = [example_state 0]"
    by (simp only:)
  from t have n: "\<not> getIsOpen (snd (MorpheusHMD_close example_hmd))"
    by blast
  from t have i: "MorpheusHMD_close (snd (MorpheusHMD_close example_hmd)) =
     ([], snd (MorpheusHMD_close example_hmd))"
    by blast
  from o c k n i show ?thesis
    by (intro conjI)
qed

subsection \<open>Loading a configuration\<close>

text \<open>
  C7. When the version of the document (0 when absent) is not the expected version 1, the
  load writes one warning and no error, and the document is discarded: every setting of
  the object is what it was before the load, the defaults in a newly constructed object
  (\<^verbatim>\<open>is_valid\<close> among them); only the member \<^verbatim>\<open>version\<close> records the version that was
  read. When the version matches, nothing is logged and every field is read on its own
  with its own fallback: the value the field has before the load, which is the
  constructor's default. For \<^verbatim>\<open>is_valid\<close>, \<^verbatim>\<open>prediction_time\<close> and
  \<^verbatim>\<open>max_poll_failure_count\<close> the code writes the fallback out as \<open>False\<close>, \<open>0\<close> and
  \<open>100\<close>; in an object that holds these values they are the value before the load too.
  The tracking colour is read by \<^verbatim>\<open>readTrackingColor\<close>.
\<close>

theorem ptree2config_versioned:
  "(pt_get as_int pt ''version'' 0 \<noteq> CONFIG_VERSION \<longrightarrow>
      ptree2config readTrackingColor c pt =
        ([SERVER_LOG_WARNING ''MorpheusHMDConfig''],
         c\<lparr> version := pt_get as_int pt ''version'' 0 \<rparr>) \<and>
      (snd (ptree2config readTrackingColor c pt))\<lparr> version := version c \<rparr> = c \<and>
      is_valid (snd (ptree2config readTrackingColor c pt)) = is_valid c) \<and>
   (pt_get as_int pt ''version'' 0 = CONFIG_VERSION \<longrightarrow>
      fst (ptree2config readTrackingColor c pt) = [] \<and>
      version (snd (ptree2config readTrackingColor c pt)) = CONFIG_VERSION \<and>
      is_valid (snd (ptree2config readTrackingColor c pt)) =
        pt_get as_bool pt ''is_valid'' False \<and>
      prediction_time (snd (ptree2config readTrackingColor c pt)) =
        pt_get as_float pt ''prediction_time'' 0 \<and>
      max_poll_failure_count (snd (ptree2config readTrackingColor c pt)) =
        pt_get as_long pt ''max_poll_failure_count'' 100 \<and>
      accelerometer_gain (snd (ptree2config readTrackingColor c pt)) =
        pt_get as_float pt ''Calibration.Accel.Gain'' (accelerometer_gain c) \<and>
      accelerometer_variance (snd (ptree2config readTrackingColor c pt)) =
        pt_get as_float pt ''Calibration.Accel.Variance'' (accelerometer_variance c) \<and>
      gyro_gain (snd (ptree2config readTrackingColor c pt)) =
        pt_get as_float pt ''Calibration.Gyro.Gain'' (gyro_gain c) \<and>
      gyro_variance (snd (ptree2config readTrackingColor c pt)) =
        pt_get as_float pt ''Calibration.Gyro.Variance'' (gyro_variance c) \<and>
      gyro_drift (snd (ptree2config readTrackingColor c pt)) =
        pt_get as_float pt ''Calibration.Gyro.Drift'' (gyro_drift c) \<and>
      min_orientation_quality_screen_area (snd (ptree2config readTrackingColor c pt)) =
        pt_get as_float pt ''OrientationFilter.MinQualityScreenArea''
          (min_orientation_quality_screen_area c) \<and>
      max_orientation_quality_screen_area (snd (ptree2config readTrackingColor c pt)) =
        pt_get as_float pt ''OrientationFilter.MaxQualityScreenArea''
          (max_orientation_quality_screen_area c) \<and>
      min_position_quality_screen_area (snd (ptree2config readTrackingColor c pt)) =
        pt_get as_float pt ''PositionFilter.MinQualityScreenArea''
          (min_position_quality_screen_area c) \<and>
      max_position_quality_screen_area (snd (ptree2config readTrackingColor c pt)) =
        pt_get as_float pt ''PositionFilter.MaxQualityScreenArea''
          (max_position_quality_screen_area c) \<and>
      max_velocity (snd (ptree2config readTrackingColor c pt)) =
        pt_get as_float pt ''PositionFilter.MaxVelocity'' (max_velocity c) \<and>
      identity_gravity_direction (snd (ptree2config readTrackingColor c pt)) =
        (pt_get as_float pt ''Calibration.Identity.Gravity.X''
           (fst (identity_gravity_direction c)),
         pt_get as_float pt ''Calibration.Identity.Gravity.Y''
           (fst (snd (identity_gravity_direction c))),
         pt_get as_float pt ''Calibration.Identity.Gravity.Z''
           (snd (snd (identity_gravity_direction c)))) \<and>
      tracking_color_id (snd (ptree2config readTrackingColor c pt)) = readTrackingColor pt \<and>
      (\<not> is_valid c \<longrightarrow> prediction_time c = 0 \<longrightarrow> max_poll_failure_count c = 100 \<longrightarrow>
         is_valid (snd (ptree2config readTrackingColor c pt)) =
           pt_get as_bool pt ''is_valid'' (is_valid c) \<and>
         prediction_time (snd (ptree2config readTrackingColor c pt)) =
           pt_get as_float pt ''prediction_time'' (prediction_time c) \<and>
         max_poll_failure_count (snd (ptree2config readTrackingColor c pt)) =
           pt_get as_long pt ''max_poll_failure_count'' (max_poll_failure_count c)))"
  by (simp add: ptree2config_def Let_def split: prod.splits)

text \<open>
  A document of version 2 leaves the example configuration as it was, but for the version
  member; a document of version 1 that holds only the accelerometer gain changes that
  gain and leaves the gyroscope gain and the failure count at their defaults.
\<close>

theorem ptree2config_versioned_witness:
  "pt_get as_int example_ptree_v2 ''version'' 0 \<noteq> CONFIG_VERSION \<and>
   ptree2config example_readTrackingColor example_config example_ptree_v2 =
     ([SERVER_LOG_WARNING ''MorpheusHMDConfig''], example_config\<lparr> version := 2 \<rparr>) \<and>
   (snd (ptree2config example_readTrackingColor example_config example_ptree_v2))
     \<lparr> version := 1 \<rparr> = example_config \<and>
   accelerometer_gain (snd (ptree2config example_readTrackingColor example_config example_ptree_v2)) =
     1 / 8192 \<and>
   pt_get as_int example_ptree_v1 ''version'' 0 = CONFIG_VERSION \<and>
   fst (ptree2config example_readTrackingColor example_config example_ptree_v1) = [] \<and>
   accelerometer_gain (snd (ptree2config example_readTrackingColor example_config example_ptree_v1)) = 1 / 2 \<and>
   gyro_gain (snd (ptree2config example_readTrackingColor example_config example_ptree_v1)) = 1 / 1024 \<and>
   max_poll_failure_count (snd (ptree2config example_readTrackingColor example_config example_ptree_v1)) = 100 \<and>
   \<not> is_valid (snd (ptree2config example_readTrackingColor example_config example_ptree_v1))"
proof -
  have v2: "pt_get as_int example_ptree_v2 ''version'' 0 = 2"
    by (simp add: pt_get_def example_ptree_v2_def int_node_def)
  have v1: "pt_get as_int example_ptree_v1 ''version'' 0 = 1"
    by (simp add: pt_get_def example_ptree_v1_def int_node_def)
  have g: "pt_get as_float example_ptree_v1 ''Calibration.Accel.Gain'' (accelerometer_gain example_config) = 1 / 2"
    "pt_get as_float example_ptree_v1 ''Calibration.Gyro.Gain'' (gyro_gain example_config) = 1 / 1024"
    "pt_get as_long example_ptree_v1 ''max_poll_failure_count'' 100 = 100"
    "pt_get as_bool example_ptree_v1 ''is_valid'' False = False"
    by (simp_all add: pt_get_def example_ptree_v1_def float_node_def example_config_def)
  note t2 = ptree2config_versioned [of example_ptree_v2 example_readTrackingColor example_config]
  note t1 = ptree2config_versioned [of example_ptree_v1 example_readTrackingColor example_config]
  have n2: "pt_get as_int example_ptree_v2 ''version'' 0 \<noteq> CONFIG_VERSION"
    by (simp add: v2 CONFIG_VERSION_def)
  have n1: "pt_get as_int example_ptree_v1 ''version'' 0 = CONFIG_VERSION"
    by (simp add: v1 CONFIG_VERSION_def)
  from t2 n2 have e2: "ptree2config example_readTrackingColor example_config example_ptree_v2 =
      ([SERVER_LOG_WARNING ''MorpheusHMDConfig''], example_config\<lparr> version := 2 \<rparr>)"
    by (simp add: v2)
  have r2: "(snd (ptree2config example_readTrackingColor example_config example_ptree_v2))
      \<lparr> version := 1 \<rparr> = example_config"
    unfolding e2 by (simp add: example_config_def)
  have a2: "accelerometer_gain
      (snd (ptree2config example_readTrackingColor example_config example_ptree_v2)) = 1 / 8192"
    unfolding e2 by (simp add: example_config_def)
  from t1 n1 have l1: "fst (ptree2config example_readTrackingColor example_config example_ptree_v1) = []"
    by blast
  from t1 n1 have a1: "accelerometer_gain
      (snd (ptree2config example_readTrackingColor example_config example_ptree_v1)) = 1 / 2"
    by (simp add: g)
  from t1 n1 have g1: "gyro_gain
      (snd (ptree2config example_readTrackingColor example_config example_ptree_v1)) = 1 / 1024"
    by (simp add: g)
  from t1 n1 have m1: "max_poll_failure_count
      (snd (ptree2config example_readTrackingColor example_config example_ptree_v1)) = 100"
    by (simp add: g)
  from t1 n1 have i1: "\<not> is_valid
      (snd (ptree2config example_readTrackingColor example_config example_ptree_v1))"
    by (simp add: g)
  from n2 e2 r2 a2 n1 l1 a1 g1 m1 i1 show ?thesis
    by (intro conjI)
qed

subsection \<open>Looking back in the history\<close>

text \<open>Remainders of numbers one modulus above or below the range.\<close>

lemma mod_shift_down:
  fixes v m :: int
  assumes "m \<le> v" "v < 2 * m"
  shows "v mod m = v - m"
proof -
  have "v = (v - m) + m" by simp
  then have "v mod m = ((v - m) + m) mod m" by (rule arg_cong)
  also have "\<dots> = (v - m) mod m" by (simp only: mod_add_self2)
  also have "\<dots> = v - m" by (rule mod_pos_pos_trivial) (use assms in linarith)+
  finally show ?thesis .
qed

lemma mod_shift_up:
  fixes v m :: int
  assumes "- m \<le> v" "v < 0"
  shows "v mod m = v + m"
proof -
  have "v mod m = (v + m) mod m" by (simp only: mod_add_self2)
  also have "\<dots> = v + m" by (rule mod_pos_pos_trivial) (use assms in linarith)+
  finally show ?thesis .
qed

text \<open>The 32-bit signed value of a number below \<open>2 ^ 32\<close>.\<close>

lemma signed_take_bit_31:
  fixes v :: int
  assumes "- 2147483648 \<le> v" "v < 4294967296"
  shows "signed_take_bit 31 v = (if v < 2147483648 then v else v - 4294967296)"
proof (cases "v < 2147483648")
  case True
  with assms show ?thesis
    by (simp add: signed_take_bit_int_eq_self)
next
  case False
  have "(v + 2147483648) mod 4294967296 = v + 2147483648 - 4294967296"
    by (rule mod_shift_down) (use assms False in linarith)+
  with False show ?thesis
    by (simp add: signed_take_bit_eq_take_bit_shift take_bit_eq_mod)
qed

text \<open>The conversion of an \<^verbatim>\<open>int\<close> to \<^verbatim>\<open>size_t\<close>.\<close>

lemma unat_scast_64:
  fixes w :: "32 word"
  shows "unat (scast w :: 64 word) =
     (if 0 \<le> sint w then nat (sint w) else nat (sint w + 18446744073709551616))"
proof -
  have b: "- 2147483648 \<le> sint w" "sint w < 2147483648"
    using sint_ge [of w] sint_lt [of w] by simp_all
  have "uint (word_of_int (sint w) :: 64 word) = sint w mod 2 ^ LENGTH(64)"
    by (rule uint_word_of_int)
  then have u: "uint (scast w :: 64 word) = sint w mod 18446744073709551616"
    by (simp only: scast_eq) simp
  show ?thesis
  proof (cases "0 \<le> sint w")
    case True
    have "sint w mod 18446744073709551616 = sint w"
      by (rule mod_pos_pos_trivial) (use b True in linarith)+
    with u have "uint (scast w :: 64 word) = sint w"
      by (simp only:)
    with True show ?thesis
      by (simp only: unat_eq_nat_uint if_True)
  next
    case False
    have "sint w mod 18446744073709551616 = sint w + 18446744073709551616"
      by (rule mod_shift_up) (use b False in linarith)+
    with u have "uint (scast w :: 64 word) = sint w + 18446744073709551616"
      by (simp only:)
    with False show ?thesis
      by (simp only: unat_eq_nat_uint if_False)
  qed
qed

text \<open>A size that fits an \<^verbatim>\<open>int\<close> is not changed by the cast.\<close>

lemma sint_queueSize:
  assumes "n < 2147483648"
  shows "sint (word_of_nat n :: 32 word) = int n"
proof -
  have "sint (word_of_int (int n) :: 32 word) = signed_take_bit (LENGTH(32) - 1) (int n)"
    by (rule sint_sbintrunc')
  also have "\<dots> = signed_take_bit 31 (int n)"
    by simp
  also have "\<dots> = int n"
    by (rule signed_take_bit_int_eq_self) (use assms in simp_all)
  finally show ?thesis by simp
qed

lemma sint_index:
  fixes lookBack :: "32 word"
  assumes "n < 2147483648"
  shows "sint (word_of_nat n - lookBack - 1 :: 32 word) =
     signed_take_bit 31 (int n - sint lookBack - 1)"
proof -
  have "sint (word_of_nat n - lookBack - 1 :: 32 word) =
      signed_take_bit 31 (signed_take_bit 31 (sint (word_of_nat n :: 32 word) - sint lookBack) - 1)"
    by (simp add: sint_word_diff)
  also have "\<dots> = signed_take_bit 31 (signed_take_bit 31 (int n - sint lookBack) - signed_take_bit 31 1)"
    by (simp add: sint_queueSize [OF assms])
  also have "\<dots> = signed_take_bit 31 (int n - sint lookBack - 1)"
    by (simp only: signed_take_bit_diff)
  finally show ?thesis .
qed

lemma check_iff:
  fixes lookBack :: "32 word"
  assumes "n < 2147483648"
  shows "(lookBack <s word_of_nat n) = (sint lookBack < int n)"
  by (simp add: word_sless_alt sint_queueSize [OF assms])

text \<open>
  A negative \<^verbatim>\<open>lookBack\<close> gives an index at or beyond the size, also when the
  subtraction wraps around.
\<close>

lemma index_negative:
  fixes lookBack :: "32 word"
  assumes n: "n < 2147483648" and l: "sint lookBack < 0"
  shows "n \<le> unat (scast (word_of_nat n - lookBack - 1 :: 32 word) :: 64 word)"
proof -
  define v where "v = int n - sint lookBack - 1"
  have b: "- 2147483648 \<le> sint lookBack"
    using sint_ge [of lookBack] by simp
  have v: "int n \<le> v" "v < 4294967296"
    using n l b by (simp_all add: v_def)
  have i: "sint (word_of_nat n - lookBack - 1 :: 32 word) =
      (if v < 2147483648 then v else v - 4294967296)"
    unfolding sint_index [OF n] v_def [symmetric]
    by (rule signed_take_bit_31) (use v in linarith)+
  show ?thesis
  proof (cases "v < 2147483648")
    case True
    with i v have "unat (scast (word_of_nat n - lookBack - 1 :: 32 word) :: 64 word) = nat v"
      by (simp add: unat_scast_64)
    with v show ?thesis by linarith
  next
    case False
    with i v have "unat (scast (word_of_nat n - lookBack - 1 :: 32 word) :: 64 word) =
        nat (v - 4294967296 + 18446744073709551616)"
      by (simp add: unat_scast_64)
    with v False n show ?thesis by linarith
  qed
qed

lemma index_in_range:
  fixes lookBack :: "32 word"
  assumes n: "n < 2147483648" and l: "0 \<le> sint lookBack" "sint lookBack < int n"
  shows "unat (scast (word_of_nat n - lookBack - 1 :: 32 word) :: 64 word) =
     n - 1 - nat (sint lookBack)"
proof -
  define v where "v = int n - sint lookBack - 1"
  have v: "0 \<le> v" "v < 2147483648"
    using n l by (simp_all add: v_def)
  have "signed_take_bit 31 v = v"
    by (rule signed_take_bit_int_eq_self) (use v in simp_all)
  then have "sint (word_of_nat n - lookBack - 1 :: 32 word) = v"
    unfolding sint_index [OF n] v_def [symmetric] .
  with v have "unat (scast (word_of_nat n - lookBack - 1 :: 32 word) :: 64 word) = nat v"
    by (simp add: unat_scast_64)
  also have "\<dots> = n - 1 - nat (sint lookBack)"
    using l by (simp add: v_def nat_diff_distrib)
  finally show ?thesis .
qed

text \<open>The three outcomes of \<^verbatim>\<open>getState\<close>.\<close>

lemma getState_cases:
  assumes n: "length (HMDStates s) < 2147483648"
  shows "getState s lookBack =
     (if sint lookBack < 0 then Inl out_of_range
      else if nat (sint lookBack) < length (HMDStates s)
      then Inr (Some (HMDStates s ! (length (HMDStates s) - 1 - nat (sint lookBack))))
      else Inr None)"
proof (cases "sint lookBack < 0")
  case True
  then have "sint lookBack < int (length (HMDStates s))" by linarith
  with True index_negative [OF n True] show ?thesis
    by (simp add: getState_def Let_def check_iff [OF n] vector_at_def)
next
  case nonneg: False
  show ?thesis
  proof (cases "sint lookBack < int (length (HMDStates s))")
    case True
    with nonneg have i: "unat (scast (word_of_nat (length (HMDStates s)) - lookBack - 1 :: 32 word) :: 64 word) =
        length (HMDStates s) - 1 - nat (sint lookBack)"
      by (intro index_in_range [OF n]) simp_all
    from True nonneg have "nat (sint lookBack) < length (HMDStates s)"
      by linarith
    with True nonneg i show ?thesis
      by (simp add: getState_def Let_def check_iff [OF n] vector_at_def)
  next
    case False
    with nonneg have "\<not> nat (sint lookBack) < length (HMDStates s)"
      by linarith
    with False nonneg show ?thesis
      by (simp add: getState_def Let_def check_iff [OF n])
  qed
qed

text \<open>
  C6. For a non-negative \<^verbatim>\<open>lookBack\<close> (and a history whose size fits an \<^verbatim>\<open>int\<close>, as
  every history of at most five entries does), \<^verbatim>\<open>getState\<close> returns the entry that
  many places back from the newest one when \<^verbatim>\<open>lookBack\<close> is below the length of the
  history, and \<^verbatim>\<open>nullptr\<close> otherwise.
\<close>

theorem getState_lookback:
  assumes "0 \<le> sint lookBack" and "length (HMDStates s) < 2147483648"
  shows "getState s lookBack =
     (if nat (sint lookBack) < length (HMDStates s)
      then Inr (Some (rev (HMDStates s) ! nat (sint lookBack)))
      else Inr None)"
  using assms by (simp add: getState_cases rev_nth)

text \<open>A history of five entries: offsets 0, 1 and 4 are found, 5 and \<^verbatim>\<open>INT_MAX\<close> are not.\<close>

theorem getState_lookback_witness:
  "getState example_hmd_full 0 = Inr (Some (example_state 4)) \<and>
   getState example_hmd_full 1 = Inr (Some (example_state 3)) \<and>
   getState example_hmd_full 4 = Inr (Some (example_state 0)) \<and>
   getState example_hmd_full 5 = Inr None \<and>
   getState example_hmd_full 2147483647 = Inr None"
proof -
  have h: "HMDStates example_hmd_full = map example_state [0, 1, 2, 3, 4]"
    by (simp add: example_hmd_full_def)
  have n: "length (HMDStates example_hmd_full) < 2147483648"
    by (simp add: h)
  have l: "0 \<le> sint (0 :: 32 word)" "0 \<le> sint (1 :: 32 word)" "0 \<le> sint (4 :: 32 word)"
    "0 \<le> sint (5 :: 32 word)" "0 \<le> sint (2147483647 :: 32 word)"
    by simp_all
  show ?thesis
    using getState_lookback [OF l(1) n] getState_lookback [OF l(2) n]
      getState_lookback [OF l(3) n] getState_lookback [OF l(4) n]
      getState_lookback [OF l(5) n]
    by (simp add: h)
qed

text \<open>
  C10. Only the upper bound is checked. For a negative \<^verbatim>\<open>lookBack\<close> the check passes,
  the index handed to \<^verbatim>\<open>at\<close> is at least the length of the history, and the access
  is out of range; this holds for the empty history as well. For a non-negative
  \<^verbatim>\<open>lookBack\<close> the access is never out of range.
\<close>

theorem getState_negative_lookback:
  assumes "length (HMDStates s) < 2147483648"
  shows
    "(sint lookBack < 0 \<longrightarrow>
        lookBack <s word_of_nat (length (HMDStates s)) \<and>
        length (HMDStates s) \<le>
          unat (scast (word_of_nat (length (HMDStates s)) - lookBack - 1 :: 32 word) :: 64 word) \<and>
        getState s lookBack = Inl out_of_range) \<and>
     (0 \<le> sint lookBack \<longrightarrow> getState s lookBack \<noteq> Inl out_of_range)"
proof (intro conjI impI)
  assume l: "sint lookBack < 0"
  then have "sint lookBack < int (length (HMDStates s))" by linarith
  then show "lookBack <s word_of_nat (length (HMDStates s))"
    by (simp add: check_iff [OF assms])
  show "length (HMDStates s) \<le>
      unat (scast (word_of_nat (length (HMDStates s)) - lookBack - 1 :: 32 word) :: 64 word)"
    by (rule index_negative [OF assms l])
  from l show "getState s lookBack = Inl out_of_range"
    by (simp add: getState_cases [OF assms])
next
  assume "0 \<le> sint lookBack"
  then show "getState s lookBack \<noteq> Inl out_of_range"
    by (simp add: getState_cases [OF assms])
qed

text \<open>Offsets \<open>-1\<close> and \<^verbatim>\<open>INT_MIN\<close> are out of range, 0 and 7 are not.\<close>

theorem getState_negative_lookback_witness:
  "getState example_hmd_full (- 1) = Inl out_of_range \<and>
   getState example_hmd_full (- 2147483648) = Inl out_of_range \<and>
   getState example_hmd_full 0 \<noteq> Inl out_of_range \<and>
   getState example_hmd_full 7 \<noteq> Inl out_of_range"
proof -
  have n: "length (HMDStates example_hmd_full) < 2147483648"
    by (simp add: example_hmd_full_def)
  have l: "sint (- 1 :: 32 word) < 0" "sint (- 2147483648 :: 32 word) < 0"
    "0 \<le> sint (0 :: 32 word)" "0 \<le> sint (7 :: 32 word)"
    by simp_all
  show ?thesis
    using getState_negative_lookback [OF n, of "- 1"]
      getState_negative_lookback [OF n, of "- 2147483648"]
      getState_negative_lookback [OF n, of 0]
      getState_negative_lookback [OF n, of 7] l
    by blast
qed

subsection \<open>The poll loop\<close>

text \<open>One packet: the new state and the object.\<close>

lemma poll_new_state_fst:
  "fst (poll_new_state s) = packet_state (cfg s) (NextPollSequenceNumber s) (InData s)"
  by (simp add: poll_new_state_def packet_state_def Let_def)

lemma poll_new_state_snd:
  "snd (poll_new_state s) =
     s\<lparr> NextPollSequenceNumber := NextPollSequenceNumber s + 1,
        HMDStates :=
          (if MORPHEUS_HMD_STATE_BUFFER_MAX \<le> length (HMDStates s)
           then drop (length (HMDStates s) - MORPHEUS_HMD_STATE_BUFFER_MAX) (HMDStates s)
           else HMDStates s) @
          [packet_state (cfg s) (NextPollSequenceNumber s) (InData s)] \<rparr>"
  by (simp add: poll_new_state_def packet_state_def Let_def)

lemma receive_fields:
  "cfg (receive s buf) = cfg s"
  "HIDDetails (receive s buf) = HIDDetails s"
  "InData (receive s buf) = buf"
  "NextPollSequenceNumber (receive s buf) = NextPollSequenceNumber s + 1"
  "HMDStates (receive s buf) =
     keep_last 5 (HMDStates s @ [packet_state (cfg s) (NextPollSequenceNumber s) buf])"
  by (simp_all add: receive_def poll_new_state_snd keep_last_def
      MORPHEUS_HMD_STATE_BUFFER_MAX_def)

lemma keep_last_snoc: "keep_last 5 (keep_last 5 xs @ [e]) = keep_last 5 (xs @ [e])"
proof -
  have "length xs - (length xs - 5 + 4) + (length xs - 5) = length xs - 4"
    by arith
  then show ?thesis
    by (simp add: keep_last_def)
qed

text \<open>A run of packets.\<close>

lemma decoded_entries_snoc:
  "decoded_entries c n (bufs @ [b]) =
     decoded_entries c n bufs @ [packet_state c (n + word_of_nat (length bufs)) b]"
  by (induction bufs arbitrary: n) (simp_all add: add.assoc)

lemma length_decoded_entries: "length (decoded_entries c n bufs) = length bufs"
  by (induction bufs arbitrary: n) simp_all

lemma foldl_receive_fields:
  "cfg (foldl receive s bufs) = cfg s \<and>
   HIDDetails (foldl receive s bufs) = HIDDetails s \<and>
   InData (foldl receive s bufs) = (if bufs = [] then InData s else last bufs) \<and>
   NextPollSequenceNumber (foldl receive s bufs) =
     NextPollSequenceNumber s + word_of_nat (length bufs) \<and>
   HMDStates (foldl receive s bufs) =
     history_after 5 (HMDStates s) (decoded_entries (cfg s) (NextPollSequenceNumber s) bufs)"
proof (induction bufs rule: rev_induct)
  case Nil
  show ?case by (simp add: history_after_def)
next
  case (snoc b bufs)
  show ?case
  proof (cases "bufs = []")
    case True
    then show ?thesis
      by (simp add: receive_fields history_after_def)
  next
    case False
    then have ne: "decoded_entries (cfg s) (NextPollSequenceNumber s) bufs \<noteq> []"
      by (cases bufs) simp_all
    from snoc False ne show ?thesis
      by (simp add: receive_fields history_after_def decoded_entries_snoc keep_last_snoc)
  qed
qed

lemma foldl_receive_eq: "foldl receive s bufs = object_after s bufs"
  by (rule MorpheusHMD.equality)
    (simp_all add: foldl_receive_fields object_after_def MORPHEUS_HMD_STATE_BUFFER_MAX_def)

text \<open>The loop reads a packet and goes on; it reads a run of packets and goes on.\<close>

lemma poll_loop_step:
  assumes "iteration < k_max_iterations" "0 < res"
  shows "poll_loop iteration result s ((res, buf) # chan) pushed =
     poll_loop (iteration + 1) PollResultSuccessNewData (receive s buf) chan
       (pushed @ [packet_state (cfg s) (NextPollSequenceNumber s) buf])"
  using assms
  by (subst poll_loop.simps)
    (simp add: hid_read_def receive_def poll_new_state_fst case_prod_beta)

lemma poll_loop_reads:
  assumes "\<forall>r\<in>set pos. 0 < fst r" "iteration + length pos \<le> k_max_iterations"
  shows "poll_loop iteration result s (pos @ rest) pushed =
     poll_loop (iteration + length pos)
       (if pos = [] then result else PollResultSuccessNewData)
       (foldl receive s (map snd pos)) rest
       (pushed @ decoded_entries (cfg s) (NextPollSequenceNumber s) (map snd pos))"
  using assms
proof (induction pos arbitrary: iteration result s pushed)
  case Nil
  show ?case by simp
next
  case (Cons r pos)
  obtain res buf where r: "r = (res, buf)" by (cases r)
  from Cons.prems r have p: "0 < res" "iteration < k_max_iterations" by simp_all
  from Cons.prems have q: "\<forall>r\<in>set pos. 0 < fst r" "Suc iteration + length pos \<le> k_max_iterations"
    by simp_all
  let ?e = "packet_state (cfg s) (NextPollSequenceNumber s) buf"
  have "poll_loop iteration result s ((r # pos) @ rest) pushed =
      poll_loop (Suc iteration) PollResultSuccessNewData (receive s buf) (pos @ rest)
        (pushed @ [?e])"
    by (simp add: r poll_loop_step [OF p(2) p(1)])
  also have "\<dots> =
      poll_loop (Suc iteration + length pos)
        (if pos = [] then PollResultSuccessNewData else PollResultSuccessNewData)
        (foldl receive (receive s buf) (map snd pos)) rest
        ((pushed @ [?e]) @
         decoded_entries (cfg (receive s buf)) (NextPollSequenceNumber (receive s buf))
           (map snd pos))"
    by (rule Cons.IH [OF q])
  also have "\<dots> =
      poll_loop (iteration + length (r # pos))
        (if r # pos = [] then result else PollResultSuccessNewData)
        (foldl receive s (map snd (r # pos))) rest
        (pushed @ decoded_entries (cfg s) (NextPollSequenceNumber s) (map snd (r # pos)))"
    by (simp add: r receive_fields)
  finally show ?case .
qed

text \<open>The four ways the loop ends.\<close>

lemma poll_loop_stop_zero:
  assumes "iteration < k_max_iterations"
  shows "poll_loop iteration result s ((0, buf) # rest) pushed =
     (if iteration = 0 then PollResultSuccessNoData else PollResultSuccessNewData,
      s\<lparr> InData := buf \<rparr>, rest, pushed)"
  using assms by (subst poll_loop.simps) (simp add: hid_read_def)

lemma poll_loop_stop_negative:
  assumes "iteration < k_max_iterations" "res < 0"
  shows "poll_loop iteration result s ((res, buf) # rest) pushed =
     (PollResultFailure, s\<lparr> InData := buf \<rparr>, rest, pushed)"
  using assms by (subst poll_loop.simps) (simp add: hid_read_def)

lemma poll_loop_stop_empty:
  assumes "iteration < k_max_iterations"
  shows "poll_loop iteration result s [] pushed =
     (if iteration = 0 then PollResultSuccessNoData else PollResultSuccessNewData,
      s, [], pushed)"
  using assms by (subst poll_loop.simps) (simp add: hid_read_def)

lemma poll_loop_stop_max:
  assumes "\<not> iteration < k_max_iterations"
  shows "poll_loop iteration result s chan pushed = (result, s, chan, pushed)"
  using assms by (subst poll_loop.simps) simp

text \<open>A poll of an open object, by what follows the packets.\<close>

lemma poll_until_zero:
  assumes "getIsOpen s" "\<forall>r\<in>set pos. 0 < fst r" "length pos < k_max_iterations"
  shows "MorpheusHMD_poll s (pos @ (0, buf) # rest) =
     (if pos = [] then PollResultSuccessNoData else PollResultSuccessNewData,
      (object_after s (map snd pos))\<lparr> InData := buf \<rparr>, rest,
      decoded_entries (cfg s) (NextPollSequenceNumber s) (map snd pos))"
  using assms
  by (simp add: MorpheusHMD_poll_def poll_loop_reads poll_loop_stop_zero foldl_receive_eq)

lemma poll_until_negative:
  assumes "getIsOpen s" "\<forall>r\<in>set pos. 0 < fst r" "length pos < k_max_iterations" "res < 0"
  shows "MorpheusHMD_poll s (pos @ (res, buf) # rest) =
     (PollResultFailure, (object_after s (map snd pos))\<lparr> InData := buf \<rparr>, rest,
      decoded_entries (cfg s) (NextPollSequenceNumber s) (map snd pos))"
  using assms
  by (simp add: MorpheusHMD_poll_def poll_loop_reads poll_loop_stop_negative foldl_receive_eq)

lemma poll_until_empty:
  assumes "getIsOpen s" "\<forall>r\<in>set pos. 0 < fst r" "length pos < k_max_iterations"
  shows "MorpheusHMD_poll s pos =
     (if pos = [] then PollResultSuccessNoData else PollResultSuccessNewData,
      object_after s (map snd pos), [],
      decoded_entries (cfg s) (NextPollSequenceNumber s) (map snd pos))"
  using assms poll_loop_reads [of pos 0 PollResultFailure s "[]" "[]"]
  by (simp add: MorpheusHMD_poll_def poll_loop_stop_empty foldl_receive_eq)

lemma poll_until_max:
  assumes "getIsOpen s" "\<forall>r\<in>set pos. 0 < fst r" "length pos = k_max_iterations"
  shows "MorpheusHMD_poll s (pos @ rest) =
     (PollResultSuccessNewData, object_after s (map snd pos), rest,
      decoded_entries (cfg s) (NextPollSequenceNumber s) (map snd pos))"
proof -
  from assms(3) have "pos \<noteq> []" by (auto simp: k_max_iterations_def)
  with assms show ?thesis
    by (simp add: MorpheusHMD_poll_def poll_loop_reads poll_loop_stop_max foldl_receive_eq)
qed

lemma poll_not_open:
  assumes "\<not> getIsOpen s"
  shows "MorpheusHMD_poll s chan = (PollResultFailure, s, chan, [])"
  using assms by (simp add: MorpheusHMD_poll_def)

text \<open>
  C2. One \<^verbatim>\<open>poll\<close> of an open object whose channel gives the packets \<open>pos\<close> (reads with
  a positive result). If fewer than 32 packets are followed by a read of 0 bytes, the
  outcome is NoData when there was no packet and NewData otherwise. If they are followed
  by a read with a negative result, the outcome is Failure. In both cases the reads after
  that one are not made (\<open>rest\<close> is still in the channel) and exactly the packets before
  it were decoded and appended, one entry each. If 32 packets arrive, the loop stops
  after them with NewData and the channel keeps the rest.
\<close>

theorem poll_classification:
  assumes "getIsOpen s" and "\<forall>r\<in>set pos. 0 < fst r"
  shows
    "(length pos < k_max_iterations \<longrightarrow>
        MorpheusHMD_poll s (pos @ (0, buf) # rest) =
          (if pos = [] then PollResultSuccessNoData else PollResultSuccessNewData,
           (object_after s (map snd pos))\<lparr> InData := buf \<rparr>, rest,
           decoded_entries (cfg s) (NextPollSequenceNumber s) (map snd pos))) \<and>
     (length pos < k_max_iterations \<longrightarrow> res < 0 \<longrightarrow>
        MorpheusHMD_poll s (pos @ (res, buf) # rest) =
          (PollResultFailure, (object_after s (map snd pos))\<lparr> InData := buf \<rparr>, rest,
           decoded_entries (cfg s) (NextPollSequenceNumber s) (map snd pos))) \<and>
     (length pos = k_max_iterations \<longrightarrow>
        MorpheusHMD_poll s (pos @ rest) =
          (PollResultSuccessNewData, object_after s (map snd pos), rest,
           decoded_entries (cfg s) (NextPollSequenceNumber s) (map snd pos))) \<and>
     k_max_iterations = 32 \<and>
     length (decoded_entries (cfg s) (NextPollSequenceNumber s) (map snd pos)) = length pos"
  using assms
  by (simp add: poll_until_zero poll_until_negative poll_until_max length_decoded_entries
      k_max_iterations_def)

text \<open>The open example object: no data, one packet then no data, one packet then an error,
  and 33 packets.\<close>

theorem poll_classification_witness:
  "getIsOpen example_hmd \<and>
   MorpheusHMD_poll example_hmd [(0, DataInput_Reset), (44, example_packet)] =
     (PollResultSuccessNoData, example_hmd\<lparr> InData := DataInput_Reset \<rparr>,
      [(44, example_packet)], []) \<and>
   MorpheusHMD_poll example_hmd [(44, example_packet), (0, DataInput_Reset), (44, example_packet)] =
     (PollResultSuccessNewData,
      example_hmd\<lparr> NextPollSequenceNumber := 2, InData := DataInput_Reset,
        HMDStates := [example_state 0, example_state 1] \<rparr>,
      [(44, example_packet)], [example_state 1]) \<and>
   MorpheusHMD_poll example_hmd [(44, example_packet), (- 1, DataInput_Reset), (44, example_packet)] =
     (PollResultFailure,
      example_hmd\<lparr> NextPollSequenceNumber := 2, InData := DataInput_Reset,
        HMDStates := [example_state 0, example_state 1] \<rparr>,
      [(44, example_packet)], [example_state 1]) \<and>
   fst (MorpheusHMD_poll example_hmd (replicate 32 (44, example_packet) @ [(44, example_packet)])) =
     PollResultSuccessNewData \<and>
   fst (snd (snd (MorpheusHMD_poll example_hmd
     (replicate 32 (44, example_packet) @ [(44, example_packet)])))) = [(44, example_packet)]"
proof -
  have o: "getIsOpen example_hmd"
    by (simp add: getIsOpen_def example_hmd_def)
  have f: "cfg example_hmd = example_config" "NextPollSequenceNumber example_hmd = 1"
    "HMDStates example_hmd = [example_state 0]"
    by (simp_all add: example_hmd_def)
  have a: "object_after example_hmd [] = example_hmd"
    by (simp add: object_after_def history_after_def)
  have b: "object_after example_hmd [example_packet] =
      example_hmd\<lparr> NextPollSequenceNumber := 2, InData := example_packet,
        HMDStates := [example_state 0, example_state 1] \<rparr>"
    by (simp add: object_after_def history_after_def keep_last_def f packet_state_def
        example_state_def MORPHEUS_HMD_STATE_BUFFER_MAX_def)
  have d: "packet_state (cfg example_hmd) (NextPollSequenceNumber example_hmd) example_packet =
      example_state 1"
    by (simp add: f packet_state_def example_state_def)
  have p: "\<forall>r\<in>set [(44 :: int, example_packet)]. 0 < fst r"
    "\<forall>r\<in>set ([] :: hid_read_result list). 0 < fst r"
    "\<forall>r\<in>set (replicate 32 (44 :: int, example_packet)). 0 < fst r"
    by simp_all
  note t0 = poll_classification [OF o p(2), of DataInput_Reset "[(44, example_packet)]" 0]
  note t1 = poll_classification [OF o p(1), of DataInput_Reset "[(44, example_packet)]" "- 1"]
  note t2 = poll_classification [OF o p(3), of DataInput_Reset "[(44, example_packet)]" 0]
  from t0 have c0: "MorpheusHMD_poll example_hmd [(0, DataInput_Reset), (44, example_packet)] =
     (PollResultSuccessNoData, example_hmd\<lparr> InData := DataInput_Reset \<rparr>,
      [(44, example_packet)], [])"
    by (simp add: a k_max_iterations_def)
  from t1 have c1: "MorpheusHMD_poll example_hmd [(44, example_packet), (0, DataInput_Reset), (44, example_packet)] =
     (PollResultSuccessNewData,
      example_hmd\<lparr> NextPollSequenceNumber := 2, InData := DataInput_Reset,
        HMDStates := [example_state 0, example_state 1] \<rparr>,
      [(44, example_packet)], [example_state 1])"
    by (simp add: b d k_max_iterations_def)
  from t1 have c2: "MorpheusHMD_poll example_hmd [(44, example_packet), (- 1, DataInput_Reset), (44, example_packet)] =
     (PollResultFailure,
      example_hmd\<lparr> NextPollSequenceNumber := 2, InData := DataInput_Reset,
        HMDStates := [example_state 0, example_state 1] \<rparr>,
      [(44, example_packet)], [example_state 1])"
    by (simp add: b d k_max_iterations_def)
  from t2 have c3: "MorpheusHMD_poll example_hmd (replicate 32 (44, example_packet) @ [(44, example_packet)]) =
     (PollResultSuccessNewData, object_after example_hmd (map snd (replicate 32 (44, example_packet))),
      [(44, example_packet)],
      decoded_entries (cfg example_hmd) (NextPollSequenceNumber example_hmd)
        (map snd (replicate 32 (44, example_packet))))"
    by (simp add: k_max_iterations_def)
  from o c0 c1 c2 c3 show ?thesis
    by simp
qed

subsection \<open>Any poll\<close>

text \<open>
  Whatever the channel gives, a poll receives some packets and stops: the object is the
  object after these packets, up to the content of the buffer, and the states pushed are
  the entries decoded from them.
\<close>

lemma object_after_Cons: "object_after (receive s buf) bufs = object_after s (buf # bufs)"
proof -
  have "foldl receive (receive s buf) bufs = foldl receive s (buf # bufs)"
    by simp
  then show ?thesis
    by (simp only: foldl_receive_eq)
qed

lemma object_after_Nil: "(object_after s [])\<lparr> InData := b \<rparr> = s\<lparr> InData := b \<rparr>"
  by (simp add: object_after_def history_after_def)

lemma poll_loop_outcome:
  "\<exists>bufs b c r. poll_loop iteration result s chan pushed =
     (r, (object_after s bufs)\<lparr> InData := b \<rparr>, c,
      pushed @ decoded_entries (cfg s) (NextPollSequenceNumber s) bufs)"
proof (induction chan arbitrary: iteration result s pushed)
  case Nil
  have "poll_loop iteration result s [] pushed =
      (if iteration < k_max_iterations
       then if iteration = 0 then PollResultSuccessNoData else PollResultSuccessNewData
       else result,
       (object_after s [])\<lparr> InData := InData s \<rparr>, [],
       pushed @ decoded_entries (cfg s) (NextPollSequenceNumber s) [])"
    by (simp add: poll_loop_stop_empty poll_loop_stop_max object_after_Nil)
  then show ?case by blast
next
  case (Cons r chan)
  obtain res buf where r: "r = (res, buf)" by (cases r)
  consider (max) "\<not> iteration < k_max_iterations"
    | (zero) "iteration < k_max_iterations" "res = 0"
    | (neg) "iteration < k_max_iterations" "res < 0"
    | (pos) "iteration < k_max_iterations" "0 < res"
    by linarith
  then show ?case
  proof cases
    case max
    then have "poll_loop iteration result s (r # chan) pushed =
        (result, (object_after s [])\<lparr> InData := InData s \<rparr>, r # chan,
         pushed @ decoded_entries (cfg s) (NextPollSequenceNumber s) [])"
      by (simp add: poll_loop_stop_max object_after_Nil)
    then show ?thesis by blast
  next
    case zero
    then have "poll_loop iteration result s (r # chan) pushed =
        (if iteration = 0 then PollResultSuccessNoData else PollResultSuccessNewData,
         (object_after s [])\<lparr> InData := buf \<rparr>, chan,
         pushed @ decoded_entries (cfg s) (NextPollSequenceNumber s) [])"
      by (simp add: r poll_loop_stop_zero object_after_Nil)
    then show ?thesis by blast
  next
    case neg
    then have "poll_loop iteration result s (r # chan) pushed =
        (PollResultFailure, (object_after s [])\<lparr> InData := buf \<rparr>, chan,
         pushed @ decoded_entries (cfg s) (NextPollSequenceNumber s) [])"
      by (simp add: r poll_loop_stop_negative object_after_Nil)
    then show ?thesis by blast
  next
    case pos
    let ?e = "packet_state (cfg s) (NextPollSequenceNumber s) buf"
    from Cons.IH [of "iteration + 1" PollResultSuccessNewData "receive s buf" "pushed @ [?e]"]
    obtain bufs b c r' where
      "poll_loop (iteration + 1) PollResultSuccessNewData (receive s buf) chan (pushed @ [?e]) =
        (r', (object_after (receive s buf) bufs)\<lparr> InData := b \<rparr>, c,
         (pushed @ [?e]) @
         decoded_entries (cfg (receive s buf)) (NextPollSequenceNumber (receive s buf)) bufs)"
      by blast
    with pos have "poll_loop iteration result s (r # chan) pushed =
        (r', (object_after s (buf # bufs))\<lparr> InData := b \<rparr>, c,
         pushed @ decoded_entries (cfg s) (NextPollSequenceNumber s) (buf # bufs))"
      by (simp add: r poll_loop_step object_after_Cons receive_fields)
    then show ?thesis by blast
  qed
qed

lemma poll_outcome:
  "\<exists>bufs b c r. MorpheusHMD_poll s chan =
     (r, (object_after s bufs)\<lparr> InData := b \<rparr>, c,
      decoded_entries (cfg s) (NextPollSequenceNumber s) bufs)"
proof (cases "getIsOpen s")
  case True
  with poll_loop_outcome [of 0 PollResultFailure s chan "[]"] show ?thesis
    by (simp add: MorpheusHMD_poll_def)
next
  case False
  then have "MorpheusHMD_poll s chan =
      (PollResultFailure, (object_after s [])\<lparr> InData := InData s \<rparr>, chan,
       decoded_entries (cfg s) (NextPollSequenceNumber s) [])"
    by (simp add: MorpheusHMD_poll_def object_after_Nil)
  then show ?thesis by blast
qed

text \<open>Numbered entries.\<close>

lemma numbered_decoded: "numbered_from n (decoded_entries c n bufs)"
  by (induction bufs arbitrary: n) (simp_all add: packet_state_def)

lemma numbered_append:
  "numbered_from n (xs @ ys) =
     (numbered_from n xs \<and> numbered_from (n + word_of_nat (length xs)) ys)"
  by (induction xs arbitrary: n) (simp_all add: add.assoc)

lemma numbered_nth:
  "numbered_from n es \<Longrightarrow> k < length es \<Longrightarrow> PollSequenceNumber (es ! k) = n + word_of_nat k"
proof (induction es arbitrary: n k)
  case Nil
  then show ?case by simp
next
  case (Cons e es)
  then show ?case
    by (cases k) (auto simp: add.assoc)
qed

text \<open>The length of a history.\<close>

lemma length_keep_last: "length (keep_last n xs) \<le> n"
  unfolding keep_last_def length_drop by arith

lemma length_history_after:
  "length h \<le> n \<Longrightarrow> length (history_after n h es) \<le> n"
proof (cases "es = []")
  case True
  assume "length h \<le> n"
  with True show ?thesis by (simp add: history_after_def)
next
  case False
  with length_keep_last [of n "h @ es"] show ?thesis by (simp only: history_after_def if_False)
qed

lemma close_history: "HMDStates (snd (MorpheusHMD_close s)) = HMDStates s"
  by (simp add: MorpheusHMD_close_def)

lemma open_history: "HMDStates (snd (snd (MorpheusHMD_open f e s))) = HMDStates s"
  by (simp add: MorpheusHMD_open_def Let_def close_history case_prod_beta)

lemma poll_history:
  assumes "length (HMDStates s) \<le> 5"
  shows "length (HMDStates (fst (snd (MorpheusHMD_poll s chan)))) \<le> 5"
proof -
  obtain bufs b c r where
    "MorpheusHMD_poll s chan =
       (r, (object_after s bufs)\<lparr> InData := b \<rparr>, c,
        decoded_entries (cfg s) (NextPollSequenceNumber s) bufs)"
    using poll_outcome by blast
  with length_history_after [OF assms] show ?thesis
    by (simp add: object_after_def MORPHEUS_HMD_STATE_BUFFER_MAX_def)
qed

lemma call_history:
  assumes "length (HMDStates s) \<le> 5"
  shows "length (HMDStates (fst (call s c))) \<le> 5"
proof (cases c)
  case (CallOpen f e)
  with assms open_history [of f e s] show ?thesis
    by (simp add: case_prod_beta)
next
  case (CallPoll chan)
  with poll_history [OF assms, of chan] show ?thesis
    by (simp add: case_prod_beta)
next
  case CallClose
  with assms close_history [of s] show ?thesis
    by (simp add: case_prod_beta)
qed

lemma calls_history:
  "length (HMDStates s) \<le> 5 \<Longrightarrow> length (HMDStates (fst (calls s cs))) \<le> 5"
proof (induction cs arbitrary: s)
  case Nil
  then show ?case by simp
next
  case (Cons c cs)
  from Cons.IH [OF call_history [OF Cons.prems, of c]] show ?case
    by (simp add: case_prod_beta)
qed

subsection \<open>Opening\<close>

lemma open_when_open: "getIsOpen s \<Longrightarrow> MorpheusHMD_open f e s = (True, [], s)"
  by (simp add: MorpheusHMD_open_def)

lemma open_when_closed:
  assumes "\<not> getIsOpen s" "fst (MorpheusHMD_open f e s)"
  shows "getIsOpen (snd (snd (MorpheusHMD_open f e s))) \<and>
     NextPollSequenceNumber (snd (snd (MorpheusHMD_open f e s))) = 0"
  using assms
  by (auto simp: MorpheusHMD_open_def Let_def getIsOpen_def case_prod_beta split: if_splits)

subsection \<open>Runs of the example objects\<close>

lemma example_hmd_fields:
  "getIsOpen example_hmd" "cfg example_hmd = example_config"
  "NextPollSequenceNumber example_hmd = 1" "HMDStates example_hmd = [example_state 0]"
  "InData example_hmd = example_packet"
  by (simp_all add: example_hmd_def getIsOpen_def)

lemma packet_state_example: "packet_state example_config n example_packet = example_state n"
  by (simp add: packet_state_def example_state_def)

lemma example_opened:
  "MorpheusHMD_open example_hid_open_path example_enumerator (MorpheusHMD_new example_config) =
     (True, [], example_hmd\<lparr> NextPollSequenceNumber := 0, InData := DataInput_Reset, HMDStates := [] \<rparr>)"
  by (simp add: MorpheusHMD_open_def MorpheusHMD_new_def getIsOpen_def Let_def
      example_hid_open_path_def example_enumerator_def example_hmd_def HIDDetails_Reset_def
      MORPHEUS_SENSOR_INTERFACE_def MORPHEUS_COMMAND_INTERFACE_def)

lemma example_calls_run:
  "calls example_hmd example_calls =
     (example_hmd\<lparr> NextPollSequenceNumber := 4,
        HMDStates := [example_state 0, example_state 1, example_state 2, example_state 3] \<rparr>,
      [example_state 1, example_state 2, example_state 3])"
proof -
  let ?s1 = "example_hmd\<lparr> NextPollSequenceNumber := 3,
      HMDStates := [example_state 0, example_state 1, example_state 2] \<rparr>"
  have p1: "MorpheusHMD_poll example_hmd [(44, example_packet), (44, example_packet)] =
      (PollResultSuccessNewData, ?s1, [], [example_state 1, example_state 2])"
    by (subst poll_until_empty)
      (simp_all add: example_hmd_fields k_max_iterations_def object_after_def
        history_after_def keep_last_def packet_state_example MORPHEUS_HMD_STATE_BUFFER_MAX_def)
  have o1: "getIsOpen ?s1"
    using example_hmd_fields(1) by (simp add: getIsOpen_def)
  have p2: "MorpheusHMD_poll ?s1 [(44, example_packet)] =
      (PollResultSuccessNewData,
       example_hmd\<lparr> NextPollSequenceNumber := 4,
        HMDStates := [example_state 0, example_state 1, example_state 2, example_state 3] \<rparr>,
       [], [example_state 3])"
    by (subst poll_until_empty)
      (simp_all add: o1 example_hmd_fields k_max_iterations_def object_after_def
        history_after_def keep_last_def packet_state_example MORPHEUS_HMD_STATE_BUFFER_MAX_def)
  show ?thesis
    by (simp add: example_calls_def p1 p2 open_when_open [OF o1])
qed

lemma example_hmd_reachable:
  "calls (MorpheusHMD_new example_config)
     [CallOpen example_hid_open_path example_enumerator, CallPoll [(44, example_packet)]] =
     (example_hmd, [example_state 0])"
proof -
  let ?s0 = "example_hmd\<lparr> NextPollSequenceNumber := 0, InData := DataInput_Reset, HMDStates := [] \<rparr>"
  have "MorpheusHMD_poll ?s0 [(44, example_packet)] =
      (PollResultSuccessNewData, example_hmd, [], [example_state 0])"
    by (subst poll_until_empty)
      (simp_all add: getIsOpen_def k_max_iterations_def object_after_def
        history_after_def keep_last_def packet_state_example MORPHEUS_HMD_STATE_BUFFER_MAX_def
        example_hmd_def)
  then show ?thesis
    by (simp add: example_opened)
qed

lemma example_five_packets:
  "calls (MorpheusHMD_new example_config)
     [CallOpen example_hid_open_path example_enumerator,
      CallPoll [(44, example_packet), (44, example_packet), (44, example_packet),
                (44, example_packet), (44, example_packet)]] =
     (example_hmd_full, map example_state [0, 1, 2, 3, 4])"
proof -
  let ?s0 = "example_hmd\<lparr> NextPollSequenceNumber := 0, InData := DataInput_Reset, HMDStates := [] \<rparr>"
  have "MorpheusHMD_poll ?s0
      [(44, example_packet), (44, example_packet), (44, example_packet),
       (44, example_packet), (44, example_packet)] =
      (PollResultSuccessNewData, example_hmd_full, [], map example_state [0, 1, 2, 3, 4])"
    by (subst poll_until_empty)
      (simp_all add: getIsOpen_def k_max_iterations_def object_after_def
        history_after_def keep_last_def packet_state_example MORPHEUS_HMD_STATE_BUFFER_MAX_def
        example_hmd_full_def example_hmd_def)
  then show ?thesis
    by (simp add: example_opened)
qed

lemma example_sixth_packet:
  "MorpheusHMD_poll example_hmd_full [(44, example_packet)] =
     (PollResultSuccessNewData,
      example_hmd_full\<lparr> NextPollSequenceNumber := 6,
        HMDStates := map example_state [1, 2, 3, 4, 5] \<rparr>, [], [example_state 5])"
  by (subst poll_until_empty)
    (simp_all add: getIsOpen_def k_max_iterations_def object_after_def
      history_after_def keep_last_def packet_state_example MORPHEUS_HMD_STATE_BUFFER_MAX_def
      example_hmd_full_def example_hmd_def)

subsection \<open>The bound of the history\<close>

text \<open>
  C9. After any sequence of \<^verbatim>\<open>open\<close>, \<^verbatim>\<open>poll\<close> and \<^verbatim>\<open>close\<close> calls on a new object the
  history has at most \<open>MORPHEUS_HMD_STATE_BUFFER_MAX + 1 = 5\<close> entries: before each
  append the history is cut down to at most 4 entries (the oldest \<open>size - 4\<close> entries go
  when the size is at least 4), then one entry is pushed.
\<close>

theorem history_never_exceeds_five:
  "length (HMDStates (fst (calls (MorpheusHMD_new cfg0) cs))) \<le> MORPHEUS_HMD_STATE_BUFFER_MAX + 1 \<and>
   MORPHEUS_HMD_STATE_BUFFER_MAX + 1 = 5 \<and>
   length (if MORPHEUS_HMD_STATE_BUFFER_MAX \<le> length (HMDStates s)
           then drop (length (HMDStates s) - MORPHEUS_HMD_STATE_BUFFER_MAX) (HMDStates s)
           else HMDStates s) \<le> MORPHEUS_HMD_STATE_BUFFER_MAX \<and>
   HMDStates (snd (poll_new_state s)) =
     (if MORPHEUS_HMD_STATE_BUFFER_MAX \<le> length (HMDStates s)
      then drop (length (HMDStates s) - MORPHEUS_HMD_STATE_BUFFER_MAX) (HMDStates s)
      else HMDStates s) @ [fst (poll_new_state s)]"
proof -
  have "length (HMDStates (MorpheusHMD_new cfg0)) \<le> 5"
    by (simp add: MorpheusHMD_new_def)
  then have "length (HMDStates (fst (calls (MorpheusHMD_new cfg0) cs))) \<le> 5"
    by (rule calls_history)
  then show ?thesis
    by (simp add: MORPHEUS_HMD_STATE_BUFFER_MAX_def poll_new_state_snd poll_new_state_fst)
qed

text \<open>
  The bound is reached: five packets leave five entries, and a \<^verbatim>\<open>close\<close> after them
  leaves no more.
\<close>

theorem history_never_exceeds_five_witness:
  "length (HMDStates (fst (calls (MorpheusHMD_new example_config)
     [CallOpen example_hid_open_path example_enumerator,
      CallPoll [(44, example_packet), (44, example_packet), (44, example_packet),
                (44, example_packet), (44, example_packet)],
      CallClose]))) \<le> 5 \<and>
   length (HMDStates (fst (calls (MorpheusHMD_new example_config)
     [CallOpen example_hid_open_path example_enumerator,
      CallPoll [(44, example_packet), (44, example_packet), (44, example_packet),
                (44, example_packet), (44, example_packet)]]))) = 5"
proof -
  let ?open = "CallOpen example_hid_open_path example_enumerator"
  let ?poll = "CallPoll [(44, example_packet), (44, example_packet), (44, example_packet),
                (44, example_packet), (44, example_packet)]"
  note t = history_never_exceeds_five [of example_config "[?open, ?poll, CallClose]" example_hmd]
  from t have "length (HMDStates (fst (calls (MorpheusHMD_new example_config)
      [?open, ?poll, CallClose]))) \<le> MORPHEUS_HMD_STATE_BUFFER_MAX + 1"
    and "MORPHEUS_HMD_STATE_BUFFER_MAX + 1 = 5"
    by blast+
  then have a: "length (HMDStates (fst (calls (MorpheusHMD_new example_config)
      [?open, ?poll, CallClose]))) \<le> 5"
    by (simp only:)
  have "fst (calls (MorpheusHMD_new example_config) [?open, ?poll]) = example_hmd_full"
    by (simp only: example_five_packets fst_conv)
  then have b: "length (HMDStates (fst (calls (MorpheusHMD_new example_config)
      [?open, ?poll]))) = 5"
    by (simp add: example_hmd_full_def)
  from a b show ?thesis
    by (intro conjI)
qed

subsection \<open>Sequence numbers\<close>

lemma poll_numbers:
  "HIDDetails (fst (snd (MorpheusHMD_poll s chan))) = HIDDetails s \<and>
   numbered_from (NextPollSequenceNumber s) (snd (snd (snd (MorpheusHMD_poll s chan)))) \<and>
   NextPollSequenceNumber (fst (snd (MorpheusHMD_poll s chan))) =
     NextPollSequenceNumber s + word_of_nat (length (snd (snd (snd (MorpheusHMD_poll s chan)))))"
proof -
  obtain bufs b c r where
    "MorpheusHMD_poll s chan =
       (r, (object_after s bufs)\<lparr> InData := b \<rparr>, c,
        decoded_entries (cfg s) (NextPollSequenceNumber s) bufs)"
    using poll_outcome by blast
  then show ?thesis
    by (simp add: object_after_def numbered_decoded length_decoded_entries)
qed

lemma call_numbers:
  assumes "getIsOpen s" "c \<noteq> CallClose"
  shows "getIsOpen (fst (call s c)) \<and>
     numbered_from (NextPollSequenceNumber s) (snd (call s c)) \<and>
     NextPollSequenceNumber (fst (call s c)) =
       NextPollSequenceNumber s + word_of_nat (length (snd (call s c)))"
proof (cases c)
  case (CallOpen f e)
  with assms show ?thesis
    by (simp add: open_when_open)
next
  case (CallPoll chan)
  with assms poll_numbers [of s chan] show ?thesis
    by (simp add: case_prod_beta getIsOpen_def)
next
  case CallClose
  with assms show ?thesis by simp
qed

lemma calls_numbers:
  assumes "getIsOpen s" "CallClose \<notin> set cs"
  shows "getIsOpen (fst (calls s cs)) \<and>
     numbered_from (NextPollSequenceNumber s) (snd (calls s cs)) \<and>
     NextPollSequenceNumber (fst (calls s cs)) =
       NextPollSequenceNumber s + word_of_nat (length (snd (calls s cs)))"
  using assms
proof (induction cs arbitrary: s)
  case Nil
  then show ?case by simp
next
  case (Cons c cs)
  from Cons.prems have c: "c \<noteq> CallClose" and cs: "CallClose \<notin> set cs"
    by auto
  note h = call_numbers [OF Cons.prems(1) c]
  note i = Cons.IH [OF conjunct1 [OF h] cs]
  from h i show ?case
    by (simp add: case_prod_beta numbered_append add.assoc)
qed

text \<open>
  As long as the counter does not pass \<^verbatim>\<open>INT_MAX\<close>, adding to it is adding integers.
\<close>

lemma sint_counter_plus:
  fixes n :: "32 word"
  assumes "sint n + int k \<le> 2147483647"
  shows "sint (n + word_of_nat k) = sint n + int k"
proof -
  have b: "- 2147483648 \<le> sint n"
    using sint_ge [of n] by simp
  have "n + word_of_nat k = word_of_int (sint n) + word_of_int (int k)"
    by simp
  also have "\<dots> = word_of_int (sint n + int k)"
    by (simp only: of_int_add)
  finally have "sint (n + word_of_nat k) = sint (word_of_int (sint n + int k) :: 32 word)"
    by (rule arg_cong)
  also have "\<dots> = signed_take_bit (LENGTH(32) - 1) (sint n + int k)"
    by (rule sint_sbintrunc')
  also have "\<dots> = signed_take_bit 31 (sint n + int k)"
    by simp
  also have "\<dots> = sint n + int k"
    by (rule signed_take_bit_int_eq_self) (use assms b in simp_all)
  finally show ?thesis .
qed

lemma calls_numbers_sint:
  assumes "getIsOpen s" "CallClose \<notin> set cs"
    and r: "sint (NextPollSequenceNumber s) + int (length (snd (calls s cs))) \<le> 2147483647"
  shows "(\<forall>k<length (snd (calls s cs)).
       sint (PollSequenceNumber (snd (calls s cs) ! k)) =
         sint (NextPollSequenceNumber s) + int k) \<and>
     sint (NextPollSequenceNumber (fst (calls s cs))) =
       sint (NextPollSequenceNumber s) + int (length (snd (calls s cs)))"
proof (intro conjI allI impI)
  note c = calls_numbers [OF assms(1,2)]
  fix k
  assume k: "k < length (snd (calls s cs))"
  with c have "PollSequenceNumber (snd (calls s cs) ! k) = NextPollSequenceNumber s + word_of_nat k"
    by (simp add: numbered_nth)
  moreover from k r have "sint (NextPollSequenceNumber s) + int k \<le> 2147483647"
    by linarith
  ultimately show "sint (PollSequenceNumber (snd (calls s cs) ! k)) =
      sint (NextPollSequenceNumber s) + int k"
    by (simp only: sint_counter_plus)
next
  note c = calls_numbers [OF assms(1,2)]
  from c r show "sint (NextPollSequenceNumber (fst (calls s cs))) =
      sint (NextPollSequenceNumber s) + int (length (snd (calls s cs)))"
    by (simp only: sint_counter_plus)
qed

text \<open>
  C5. While the object stays open (calls of \<^verbatim>\<open>poll\<close>, and of \<^verbatim>\<open>open\<close>, which then
  changes nothing; no \<^verbatim>\<open>close\<close>), the states pushed, in the order they are pushed and
  across all the polls, carry the numbers \<open>n\<close>, \<open>n + 1\<close>, \<open>n + 2\<close> and so on in the
  arithmetic of the counter, \<open>n\<close> being the counter at the start, and the counter ends at
  \<open>n\<close> plus their number. As long as the counter is not taken beyond \<^verbatim>\<open>INT_MAX\<close> these
  are the integers \<open>n\<close>, \<open>n + 1\<close>, \<open>n + 2\<close>: each number is the one before plus exactly
  1. An \<^verbatim>\<open>open\<close> that succeeds on an object that was not open, the one that opens the
  two channels, leaves the object open with the counter at 0.
\<close>

theorem sequence_numbers:
  "(getIsOpen s \<longrightarrow> CallClose \<notin> set cs \<longrightarrow>
      getIsOpen (fst (calls s cs)) \<and>
      (\<forall>k<length (snd (calls s cs)).
         PollSequenceNumber (snd (calls s cs) ! k) =
           NextPollSequenceNumber s + word_of_nat k) \<and>
      NextPollSequenceNumber (fst (calls s cs)) =
        NextPollSequenceNumber s + word_of_nat (length (snd (calls s cs))) \<and>
      (sint (NextPollSequenceNumber s) + int (length (snd (calls s cs))) \<le> 2147483647 \<longrightarrow>
         (\<forall>k<length (snd (calls s cs)).
            sint (PollSequenceNumber (snd (calls s cs) ! k)) =
              sint (NextPollSequenceNumber s) + int k) \<and>
         sint (NextPollSequenceNumber (fst (calls s cs))) =
           sint (NextPollSequenceNumber s) + int (length (snd (calls s cs))))) \<and>
   (\<not> getIsOpen s \<longrightarrow> fst (MorpheusHMD_open hid_open_path pEnum s) \<longrightarrow>
      getIsOpen (snd (snd (MorpheusHMD_open hid_open_path pEnum s))) \<and>
      NextPollSequenceNumber (snd (snd (MorpheusHMD_open hid_open_path pEnum s))) = 0) \<and>
   (getIsOpen s \<longrightarrow> MorpheusHMD_open hid_open_path pEnum s = (True, [], s))"
  using calls_numbers [of s cs] numbered_nth [of "NextPollSequenceNumber s" "snd (calls s cs)"]
    calls_numbers_sint [of s cs]
    open_when_closed [of s hid_open_path pEnum] open_when_open [of s hid_open_path pEnum]
  by blast

text \<open>
  Three packets over two polls with a redundant open between them are numbered 1, 2, 3
  after the counter stood at 1; opening the new object sets the counter to 0.
\<close>

theorem sequence_numbers_witness:
  "getIsOpen example_hmd \<and> CallClose \<notin> set example_calls \<and>
   NextPollSequenceNumber example_hmd = 1 \<and>
   snd (calls example_hmd example_calls) = [example_state 1, example_state 2, example_state 3] \<and>
   sint (NextPollSequenceNumber example_hmd) +
     int (length (snd (calls example_hmd example_calls))) \<le> 2147483647 \<and>
   sint (PollSequenceNumber (snd (calls example_hmd example_calls) ! 0)) = 1 \<and>
   sint (PollSequenceNumber (snd (calls example_hmd example_calls) ! 1)) = 2 \<and>
   sint (PollSequenceNumber (snd (calls example_hmd example_calls) ! 2)) = 3 \<and>
   sint (NextPollSequenceNumber (fst (calls example_hmd example_calls))) = 4 \<and>
   \<not> getIsOpen (MorpheusHMD_new example_config) \<and>
   fst (MorpheusHMD_open example_hid_open_path example_enumerator (MorpheusHMD_new example_config)) \<and>
   NextPollSequenceNumber (snd (snd (MorpheusHMD_open example_hid_open_path example_enumerator
     (MorpheusHMD_new example_config)))) = 0"
proof -
  have c: "CallClose \<notin> set example_calls"
    by (simp add: example_calls_def)
  have n: "\<not> getIsOpen (MorpheusHMD_new example_config)"
    by (simp add: getIsOpen_def MorpheusHMD_new_def HIDDetails_Reset_def)
  have l: "length (snd (calls example_hmd example_calls)) = 3"
    by (simp add: example_calls_run)
  have i: "sint (NextPollSequenceNumber example_hmd) = 1"
    by (simp add: example_hmd_fields(3))
  have b: "sint (NextPollSequenceNumber example_hmd) +
      int (length (snd (calls example_hmd example_calls))) \<le> 2147483647"
    by (simp only: i l)
  note t = sequence_numbers [of example_hmd example_calls example_hid_open_path example_enumerator]
  note u = sequence_numbers [of "MorpheusHMD_new example_config" "[]" example_hid_open_path
      example_enumerator]
  from t example_hmd_fields(1) c b
  have k: "\<forall>k<length (snd (calls example_hmd example_calls)).
      sint (PollSequenceNumber (snd (calls example_hmd example_calls) ! k)) =
        sint (NextPollSequenceNumber example_hmd) + int k"
    and e: "sint (NextPollSequenceNumber (fst (calls example_hmd example_calls))) =
        sint (NextPollSequenceNumber example_hmd) +
        int (length (snd (calls example_hmd example_calls)))"
    by blast+
  have "(0 :: nat) < 3" "(1 :: nat) < 3" "(2 :: nat) < 3"
    by simp_all
  with k have "sint (PollSequenceNumber (snd (calls example_hmd example_calls) ! 0)) = 1 + int 0"
    "sint (PollSequenceNumber (snd (calls example_hmd example_calls) ! 1)) = 1 + int 1"
    "sint (PollSequenceNumber (snd (calls example_hmd example_calls) ! 2)) = 1 + int 2"
    unfolding l i by blast+
  then have k0: "sint (PollSequenceNumber (snd (calls example_hmd example_calls) ! 0)) = 1"
    and k1: "sint (PollSequenceNumber (snd (calls example_hmd example_calls) ! 1)) = 2"
    and k2: "sint (PollSequenceNumber (snd (calls example_hmd example_calls) ! 2)) = 3"
    by simp_all
  from e have e': "sint (NextPollSequenceNumber (fst (calls example_hmd example_calls))) = 4"
    unfolding l i by simp
  have f: "fst (MorpheusHMD_open example_hid_open_path example_enumerator
      (MorpheusHMD_new example_config))"
    by (simp add: example_opened)
  from u n f
  have z: "NextPollSequenceNumber (snd (snd (MorpheusHMD_open example_hid_open_path
      example_enumerator (MorpheusHMD_new example_config)))) = 0"
    by blast
  have x: "snd (calls example_hmd example_calls) = [example_state 1, example_state 2, example_state 3]"
    by (simp add: example_calls_run)
  from example_hmd_fields(1,3) c x b k0 k1 k2 e' n f z show ?thesis
    by (intro conjI)
qed

subsection \<open>The capacity of the history\<close>

text \<open>
  In general: once as many entries were appended as the loop keeps, the history is the
  last of the appended entries, and has that length.
\<close>

lemma history_after_many:
  assumes "n \<le> length es" "0 < n"
  shows "history_after n h es = keep_last n es \<and> length (history_after n h es) = n"
proof -
  from assms have "es \<noteq> []" by auto
  with assms show ?thesis
    by (simp add: history_after_def keep_last_def)
qed

text \<open>
  C1. The claim does not hold of the code: the loop makes room only down to
  \<open>MORPHEUS_HMD_STATE_BUFFER_MAX = 4\<close> entries and then pushes, so the history holds 5.
  A new object is opened and polled with five packets: the history has five entries,
  numbered 0 to 4. One more packet: it has the five entries numbered 1 to 5. The entry
  four places back from the newest is still there.
\<close>

theorem history_holds_five_entries:
  "calls (MorpheusHMD_new example_config)
     [CallOpen example_hid_open_path example_enumerator,
      CallPoll [(44, example_packet), (44, example_packet), (44, example_packet),
                (44, example_packet), (44, example_packet)]] =
     (example_hmd_full, map example_state [0, 1, 2, 3, 4]) \<and>
   length (HMDStates example_hmd_full) = 5 \<and>
   MORPHEUS_HMD_STATE_BUFFER_MAX = 4 \<and>
   HMDStates (fst (calls example_hmd_full [CallPoll [(44, example_packet)]])) =
     map example_state [1, 2, 3, 4, 5] \<and>
   getState example_hmd_full 4 = Inr (Some (example_state 0))"
proof -
  have g: "getState example_hmd_full 4 = Inr (Some (example_state 0))"
    by (subst getState_cases) (simp_all add: example_hmd_full_def)
  have q: "HMDStates (fst (calls example_hmd_full [CallPoll [(44, example_packet)]])) =
      map example_state [1, 2, 3, 4, 5]"
    by (simp add: example_sixth_packet)
  have l: "length (HMDStates example_hmd_full) = 5"
    by (simp add: example_hmd_full_def)
  have m: "MORPHEUS_HMD_STATE_BUFFER_MAX = 4"
    by (simp add: MORPHEUS_HMD_STATE_BUFFER_MAX_def)
  from example_five_packets l m q g show ?thesis
    by (intro conjI)
qed

end
